theory Spec2Isabelle
  imports Complex_Main "HOL-Library.AList"
begin

section \<open>Data model\<close>

text \<open>
  An observation matrix (frames by features) is a list of frames, each a list of reals.
  The pair \<open>(X, lengths)\<close> is the unit that the fitting and scoring library accepts.
  Dictionaries are association lists in insertion order, since \<open>recognize\<close> depends on
  the iteration order of \<open>models\<close>; a dictionary has distinct keys.
\<close>

type_synonym frame = "real list"
type_synonym observations = "frame list"
type_synonym Xlengths = "observations \<times> nat list"

text \<open>Every exception of the source is a value; a bare \<open>except:\<close> catches all of them.\<close>

datatype exn =
  LibraryError | KeyError | IndexError | ValueError | ZeroDivisionError
  | AttributeError | NotImplementedError | OverflowError

text \<open>
  The running optimum of a search is a Python float that starts at \<open>math.inf\<close> or
  \<open>-math.inf\<close> and is later a score. Scores returned by the library are reals:
  rounding and not-a-number are outside this model.
\<close>

datatype xreal = NegInf | Fin real | PosInf

instantiation xreal :: linorder
begin

fun less_xreal :: "xreal \<Rightarrow> xreal \<Rightarrow> bool" where
  "less_xreal (Fin a) (Fin b) = (a < b)"
| "less_xreal NegInf NegInf = False"
| "less_xreal NegInf (Fin b) = True"
| "less_xreal NegInf PosInf = True"
| "less_xreal (Fin a) PosInf = True"
| "less_xreal (Fin a) NegInf = False"
| "less_xreal PosInf b = False"

definition less_eq_xreal :: "xreal \<Rightarrow> xreal \<Rightarrow> bool" where
  "less_eq_xreal a b = (a < b \<or> a = b)"

instance
proof
  fix x y z :: xreal
  show "(x < y) = (x \<le> y \<and> \<not> y \<le> x)"
    by (cases x; cases y) (auto simp: less_eq_xreal_def)
  show "x \<le> x"
    by (simp add: less_eq_xreal_def)
  show "x \<le> y \<Longrightarrow> y \<le> z \<Longrightarrow> x \<le> z"
    by (cases x; cases y; cases z) (auto simp: less_eq_xreal_def)
  show "x \<le> y \<Longrightarrow> y \<le> x \<Longrightarrow> x = y"
    by (cases x; cases y) (auto simp: less_eq_xreal_def)
  show "x \<le> y \<or> y \<le> x"
    by (cases x; cases y) (auto simp: less_eq_xreal_def)
qed

end

text \<open>
  The value of a float expression of the program: a number, an infinity, or not-a-number.
  A comparison with not-a-number is false.
\<close>

datatype pyfloat = NaN | Num xreal

text \<open>
  A \<open>GaussianHMM\<close> object after \<open>fit\<close>: the state count it was constructed with and
  the fitted parameters, which are opaque here.
\<close>

record 'p GaussianHMM =
  n_components :: int
  params :: 'p

text \<open>
  The external collaborators, taken as parameters. Each call either returns or raises:
  \<^item> \<open>hmm_fit n random_state X lengths\<close> is
    \<open>GaussianHMM(n_components=n, covariance_type="diag", n_iter=1000,
    random_state=random_state, verbose=False).fit(X, lengths)\<close>
    (\<open>"diag"\<close> and \<open>False\<close> are the defaults, so the search loops and
    \<open>base_model\<close> make the same call);
  \<^item> \<open>hmm_score model X lengths\<close> is \<open>model.score(X, lengths)\<close>;
  \<^item> \<open>KFold random_state\<close> constructs the fold splitter and \<open>split\<close> lists its
    (train indices, test indices) pairs;
  \<^item> \<open>combine_sequences\<close> is the helper of \<open>asl_utils\<close>.

  The float arithmetic of the runtime rounds, so it is a parameter as well:
  \<^item> \<open>float_add\<close>, \<open>float_sub\<close> and \<open>float_mul\<close> are \<open>+\<close>, \<open>-\<close> and
    \<open>*\<close> on floats;
  \<^item> \<open>int_truediv a b\<close> is \<open>a / b\<close> on integers, for \<open>b\<close> other than zero;
  \<^item> \<open>math_log n\<close> is \<open>math.log(n)\<close>, for a positive integer \<open>n\<close>;
  \<^item> \<open>float_of_int\<close> converts the integer operand of a float operation, and raises
    \<open>OverflowError\<close> on an integer that is too large.
\<close>

record ('p, 'sp) library =
  hmm_fit :: "int \<Rightarrow> int \<Rightarrow> observations \<Rightarrow> nat list \<Rightarrow> exn + 'p"
  hmm_score :: "'p GaussianHMM \<Rightarrow> observations \<Rightarrow> nat list \<Rightarrow> exn + real"
  KFold :: "int \<Rightarrow> exn + 'sp"
  split :: "'sp \<Rightarrow> observations list \<Rightarrow> exn + (nat list \<times> nat list) list"
  combine_sequences :: "nat list \<Rightarrow> observations list \<Rightarrow> exn + Xlengths"
  float_add :: "pyfloat \<Rightarrow> pyfloat \<Rightarrow> pyfloat"
  float_sub :: "pyfloat \<Rightarrow> pyfloat \<Rightarrow> pyfloat"
  float_mul :: "pyfloat \<Rightarrow> pyfloat \<Rightarrow> pyfloat"
  int_truediv :: "int \<Rightarrow> int \<Rightarrow> pyfloat"
  math_log :: "nat \<Rightarrow> pyfloat"
  float_of_int :: "int \<Rightarrow> exn + pyfloat"

definition GaussianHMM_fit ::
  "('p, 'sp) library \<Rightarrow> int \<Rightarrow> int \<Rightarrow> observations \<Rightarrow> nat list \<Rightarrow> exn + 'p GaussianHMM" where
  "GaussianHMM_fit L n rs obs ls =
     (case hmm_fit L n rs obs ls of
        Inl e \<Rightarrow> Inl e
      | Inr p \<Rightarrow> Inr \<lparr>n_components = n, params = p\<rparr>)"

section \<open>ModelSelector\<close>

record ModelSelector =
  words :: "(string \<times> observations list) list"
  hwords :: "(string \<times> Xlengths) list"
  sequences :: "observations list"
  X :: observations
  lengths :: "nat list"
  this_word :: string
  n_constant :: int
  min_n_components :: int
  max_n_components :: int
  random_state :: int
  verbose :: bool

text \<open>\<open>__init__\<close>: both dictionary lookups raise \<open>KeyError\<close> on a missing word.\<close>

definition ModelSelector_init ::
  "(string \<times> observations list) list \<Rightarrow> (string \<times> Xlengths) list \<Rightarrow> string \<Rightarrow>
   int \<Rightarrow> int \<Rightarrow> int \<Rightarrow> int \<Rightarrow> bool \<Rightarrow> exn + ModelSelector" where
  "ModelSelector_init all_word_sequences all_word_Xlengths w nc mn mx rs vb =
     (case map_of all_word_sequences w of
        None \<Rightarrow> Inl KeyError
      | Some seqs \<Rightarrow>
          (case map_of all_word_Xlengths w of
             None \<Rightarrow> Inl KeyError
           | Some (x, ls) \<Rightarrow>
               Inr \<lparr>words = all_word_sequences, hwords = all_word_Xlengths,
                    sequences = seqs, X = x, lengths = ls, this_word = w,
                    n_constant = nc, min_n_components = mn, max_n_components = mx,
                    random_state = rs, verbose = vb\<rparr>))"

text \<open>The abstract \<open>select\<close> of the base class.\<close>

definition ModelSelector_select ::
  "('p, 'sp) library \<Rightarrow> ModelSelector \<Rightarrow> exn + 'p GaussianHMM option" where
  "ModelSelector_select L self = Inl NotImplementedError"

text \<open>
  \<open>base_model\<close>: the fit is inside \<open>try\<close>, and the handler returns \<open>None\<close>. The two
  \<open>print\<close> calls under \<open>verbose\<close> are not modelled.
\<close>

definition base_model ::
  "('p, 'sp) library \<Rightarrow> ModelSelector \<Rightarrow> int \<Rightarrow> 'p GaussianHMM option" where
  "base_model L self num_states =
     (case GaussianHMM_fit L num_states (random_state self) (X self) (lengths self) of
        Inr hmm_model \<Rightarrow> Some hmm_model
      | Inl e \<Rightarrow> None)"

section \<open>SelectorConstant\<close>

definition SelectorConstant_select ::
  "('p, 'sp) library \<Rightarrow> ModelSelector \<Rightarrow> exn + 'p GaussianHMM option" where
  "SelectorConstant_select L self =
     (let best_num_components = n_constant self
      in Inr (base_model L self best_num_components))"

text \<open>
  The state of a search loop: the running optimum (\<open>max_bic\<close>, \<open>max_dic\<close> or
  \<open>max_score\<close> in the source) and \<open>max_components\<close>.
\<close>

type_synonym search = "xreal \<times> int"

section \<open>SelectorBIC\<close>

text \<open>
  The body of the \<open>try\<close> for one candidate: the BIC as the runtime computes it, or the
  exception raised. The integer \<open>-2\<close> is a float without rounding; \<open>p\<close> is converted
  when it meets the float \<open>math.log(n_data_points)\<close>.
\<close>

definition bic_try :: "('p, 'sp) library \<Rightarrow> ModelSelector \<Rightarrow> int \<Rightarrow> exn + pyfloat" where
  "bic_try L self i =
     (case GaussianHMM_fit L i (random_state self) (X self) (lengths self) of
        Inl e \<Rightarrow> Inl e
      | Inr model \<Rightarrow>
          (case hmm_score L model (X self) (lengths self) of
             Inl e \<Rightarrow> Inl e
           | Inr log_l \<Rightarrow>
               (let n_data_points = length (X self)
                in case X self of
                     [] \<Rightarrow> Inl IndexError
                   | x0 # rest \<Rightarrow>
                       (let n_features = length x0;
                            p = i ^ 2 + 2 * int n_features * i - 1
                        in if n_data_points = 0 then Inl ValueError
                           else (case float_of_int L p of
                                   Inl e \<Rightarrow> Inl e
                                 | Inr pf \<Rightarrow>
                                     Inr (float_add L
                                            (float_mul L (Num (Fin (- 2))) (Num (Fin log_l)))
                                            (float_mul L pf (math_log L n_data_points))))))))"

text \<open>\<open>bic < max_bic\<close> is false when \<open>bic\<close> is not-a-number.\<close>

definition bic_step :: "('p, 'sp) library \<Rightarrow> ModelSelector \<Rightarrow> search \<Rightarrow> int \<Rightarrow> search" where
  "bic_step L self st i =
     (case st of (max_bic, max_components) \<Rightarrow>
        (case bic_try L self i of
           Inl e \<Rightarrow> (max_bic, max_components)
         | Inr NaN \<Rightarrow> (max_bic, max_components)
         | Inr (Num bic) \<Rightarrow>
             if bic < max_bic then (bic, i) else (max_bic, max_components)))"

definition bic_search :: "('p, 'sp) library \<Rightarrow> ModelSelector \<Rightarrow> search" where
  "bic_search L self =
     foldl (bic_step L self) (PosInf, min_n_components self)
       [min_n_components self .. max_n_components self]"

definition SelectorBIC_select ::
  "('p, 'sp) library \<Rightarrow> ModelSelector \<Rightarrow> exn + 'p GaussianHMM option" where
  "SelectorBIC_select L self =
     (case bic_search L self of (max_bic, max_components) \<Rightarrow>
        Inr (base_model L self max_components))"

section \<open>SelectorDIC\<close>

text \<open>
  The inner loop over \<open>self.hwords.items()\<close>: the target word is passed over, every
  other word's score is added, and a score that raises leaves the loop.
\<close>

fun dic_others ::
  "('p, 'sp) library \<Rightarrow> 'p GaussianHMM \<Rightarrow> string \<Rightarrow> (string \<times> Xlengths) list \<Rightarrow> pyfloat
   \<Rightarrow> exn + pyfloat" where
  "dic_others L model w [] word_score = Inr word_score"
| "dic_others L model w ((key, (x, lenghts)) # items) word_score =
     (if key = w then dic_others L model w items word_score
      else (case hmm_score L model x lenghts of
              Inl e \<Rightarrow> Inl e
            | Inr s \<Rightarrow> dic_others L model w items (float_add L word_score (Num (Fin s)))))"

text \<open>
  The body of the \<open>try\<close> for one candidate: the DIC as the runtime computes it, or the
  exception raised. \<open>word_score\<close> starts at zero; the division of integers raises on a
  zero divisor.
\<close>

definition dic_try :: "('p, 'sp) library \<Rightarrow> ModelSelector \<Rightarrow> int \<Rightarrow> exn + pyfloat" where
  "dic_try L self i =
     (case GaussianHMM_fit L i (random_state self) (X self) (lengths self) of
        Inl e \<Rightarrow> Inl e
      | Inr model \<Rightarrow>
          (case hmm_score L model (X self) (lengths self) of
             Inl e \<Rightarrow> Inl e
           | Inr this_word_score \<Rightarrow>
               (case dic_others L model (this_word self) (hwords self) (Num (Fin 0)) of
                  Inl e \<Rightarrow> Inl e
                | Inr word_score \<Rightarrow>
                    if int (length (hwords self)) - 1 = 0 then Inl ZeroDivisionError
                    else Inr (float_sub L (Num (Fin this_word_score))
                                (float_mul L (int_truediv L 1 (int (length (hwords self)) - 1))
                                   word_score)))))"

text \<open>\<open>dic > max_dic\<close> is false when \<open>dic\<close> is not-a-number.\<close>

definition dic_step :: "('p, 'sp) library \<Rightarrow> ModelSelector \<Rightarrow> search \<Rightarrow> int \<Rightarrow> search" where
  "dic_step L self st i =
     (case st of (max_dic, max_components) \<Rightarrow>
        (case dic_try L self i of
           Inl e \<Rightarrow> (max_dic, max_components)
         | Inr NaN \<Rightarrow> (max_dic, max_components)
         | Inr (Num dic) \<Rightarrow>
             if max_dic < dic then (dic, i) else (max_dic, max_components)))"

definition dic_search :: "('p, 'sp) library \<Rightarrow> ModelSelector \<Rightarrow> search" where
  "dic_search L self =
     foldl (dic_step L self) (NegInf, min_n_components self)
       [min_n_components self .. max_n_components self]"

definition SelectorDIC_select ::
  "('p, 'sp) library \<Rightarrow> ModelSelector \<Rightarrow> exn + 'p GaussianHMM option" where
  "SelectorDIC_select L self =
     (case dic_search L self of (max_dic, max_components) \<Rightarrow>
        Inr (base_model L self max_components))"

section \<open>SelectorCV\<close>

text \<open>One fold: combine the train and the test sequences, fit on train, score on test.\<close>

definition cv_fold ::
  "('p, 'sp) library \<Rightarrow> ModelSelector \<Rightarrow> int \<Rightarrow> nat list \<Rightarrow> nat list \<Rightarrow> exn + real" where
  "cv_fold L self i train_idx test_idx =
     (case combine_sequences L train_idx (sequences self) of
        Inl e \<Rightarrow> Inl e
      | Inr (x_train, lengths_train) \<Rightarrow>
          (case combine_sequences L test_idx (sequences self) of
             Inl e \<Rightarrow> Inl e
           | Inr (x_test, lengths_test) \<Rightarrow>
               (case GaussianHMM_fit L i (random_state self) x_train lengths_train of
                  Inl e \<Rightarrow> Inl e
                | Inr model \<Rightarrow> hmm_score L model x_test lengths_test)))"

text \<open>
  The loop over the folds of one candidate. An exception leaves the loop, and the
  assignments made before it stay: the result is the state and the pending exception.
\<close>

fun cv_folds ::
  "('p, 'sp) library \<Rightarrow> ModelSelector \<Rightarrow> int \<Rightarrow> (nat list \<times> nat list) list \<Rightarrow> search
   \<Rightarrow> search \<times> exn option" where
  "cv_folds L self i [] st = (st, None)"
| "cv_folds L self i ((train_idx, test_idx) # folds) (max_score, max_components) =
     (case cv_fold L self i train_idx test_idx of
        Inl e \<Rightarrow> ((max_score, max_components), Some e)
      | Inr log_l \<Rightarrow>
          if max_score < Fin log_l then cv_folds L self i folds (Fin log_l, i)
          else cv_folds L self i folds (max_score, max_components))"

text \<open>
  The loop over the candidates. The splitter is constructed before the \<open>try\<close>, so an
  exception of the constructor leaves \<open>select\<close>; \<open>split\<close> and the folds are inside it.
\<close>

fun cv_loop ::
  "('p, 'sp) library \<Rightarrow> ModelSelector \<Rightarrow> int list \<Rightarrow> search \<Rightarrow> exn + search" where
  "cv_loop L self [] st = Inr st"
| "cv_loop L self (i # cands) st =
     (case KFold L (random_state self) of
        Inl e \<Rightarrow> Inl e
      | Inr split_method \<Rightarrow>
          (case split L split_method (sequences self) of
             Inl e \<Rightarrow> cv_loop L self cands st
           | Inr folds \<Rightarrow> cv_loop L self cands (fst (cv_folds L self i folds st))))"

definition cv_search :: "('p, 'sp) library \<Rightarrow> ModelSelector \<Rightarrow> exn + search" where
  "cv_search L self =
     cv_loop L self [min_n_components self .. max_n_components self]
       (NegInf, min_n_components self)"

definition SelectorCV_select ::
  "('p, 'sp) library \<Rightarrow> ModelSelector \<Rightarrow> exn + 'p GaussianHMM option" where
  "SelectorCV_select L self =
     (case cv_search L self of
        Inl e \<Rightarrow> Inl e
      | Inr (max_score, max_components) \<Rightarrow> Inr (base_model L self max_components))"

section \<open>recognize\<close>

text \<open>
  The test set exposes \<open>num_items\<close> and \<open>get_item_Xlengths\<close>, which may raise. A value
  of \<open>models\<close> is a fitted model or \<open>None\<close>, the result of a \<open>select\<close> whose final fit
  failed; \<open>None.score\<close> raises \<open>AttributeError\<close>.
\<close>

record TestSet =
  num_items :: nat
  get_item_Xlengths :: "nat \<Rightarrow> exn + Xlengths"

definition model_score ::
  "('p, 'sp) library \<Rightarrow> 'p GaussianHMM option \<Rightarrow> observations \<Rightarrow> nat list \<Rightarrow> exn + real" where
  "model_score L model x ls =
     (case model of None \<Rightarrow> Inl AttributeError | Some m \<Rightarrow> hmm_score L m x ls)"

text \<open>
  \<open>log_l = float("-inf")\<close>, then the score inside \<open>try\<close>, with \<open>except: pass\<close>.
\<close>

definition try_score ::
  "('p, 'sp) library \<Rightarrow> 'p GaussianHMM option \<Rightarrow> observations \<Rightarrow> nat list \<Rightarrow> xreal" where
  "try_score L model x ls =
     (case model_score L model x ls of Inl e \<Rightarrow> NegInf | Inr v \<Rightarrow> Fin v)"

type_synonym item_state = "xreal \<times> string option \<times> (string \<times> xreal) list"

text \<open>
  The loop over \<open>models.keys()\<close> for test item \<open>i\<close>. The item access is outside the
  \<open>try\<close>; only \<open>model.score\<close> is inside it.
\<close>

fun recognize_words ::
  "('p, 'sp) library \<Rightarrow> (string \<times> 'p GaussianHMM option) list \<Rightarrow> TestSet \<Rightarrow> nat \<Rightarrow>
   string list \<Rightarrow> item_state \<Rightarrow> exn + item_state" where
  "recognize_words L models test_set i [] st = Inr st"
| "recognize_words L models test_set i (word # ws) (max_l, guess, log_l_values) =
     (case map_of models word of
        None \<Rightarrow> Inl KeyError
      | Some model \<Rightarrow>
          (case get_item_Xlengths test_set i of
             Inl e \<Rightarrow> Inl e
           | Inr (x, ls) \<Rightarrow>
               (let log_l = try_score L model x ls;
                    log_l_values' = AList.update word log_l log_l_values
                in if max_l < log_l
                   then recognize_words L models test_set i ws (log_l, Some word, log_l_values')
                   else recognize_words L models test_set i ws (max_l, guess, log_l_values'))))"

fun recognize_items ::
  "('p, 'sp) library \<Rightarrow> (string \<times> 'p GaussianHMM option) list \<Rightarrow> TestSet \<Rightarrow> nat list \<Rightarrow>
   (string \<times> xreal) list list \<times> string option list \<Rightarrow>
   exn + (string \<times> xreal) list list \<times> string option list" where
  "recognize_items L models test_set [] acc = Inr acc"
| "recognize_items L models test_set (i # items) (probabilities, guesses) =
     (case recognize_words L models test_set i (map fst models) (NegInf, None, []) of
        Inl e \<Rightarrow> Inl e
      | Inr (max_l, guess, log_l_values) \<Rightarrow>
          recognize_items L models test_set items
            (probabilities @ [log_l_values], guesses @ [guess]))"

definition recognize ::
  "('p, 'sp) library \<Rightarrow> (string \<times> 'p GaussianHMM option) list \<Rightarrow> TestSet \<Rightarrow>
   exn + (string \<times> xreal) list list \<times> string option list" where
  "recognize L models test_set =
     recognize_items L models test_set [0 ..< num_items test_set] ([], [])"

section \<open>Notions used to state the properties\<close>

text \<open>
  Keeping the better of the running optimum and a new value: \<open>beats v m\<close> says that
  the value \<open>v\<close> replaces the optimum \<open>m\<close>. An element without a value changes nothing.
\<close>

definition keep_better ::
  "('v \<Rightarrow> 'v \<Rightarrow> bool) \<Rightarrow> ('a \<Rightarrow> 'k) \<Rightarrow> ('a \<Rightarrow> 'v option) \<Rightarrow> 'v \<times> 'k \<Rightarrow> 'a \<Rightarrow> 'v \<times> 'k" where
  "keep_better beats key val st x =
     (case val x of
        None \<Rightarrow> st
      | Some v \<Rightarrow> if beats v (fst st) then (v, key x) else st)"

text \<open>
  The outcome of a \<open>try\<close> body as an optional value of the search: an exception and
  not-a-number give none.
\<close>

definition scored :: "exn + pyfloat \<Rightarrow> xreal option" where
  "scored r = (case r of Inl e \<Rightarrow> None | Inr NaN \<Rightarrow> None | Inr (Num v) \<Rightarrow> Some v)"

text \<open>
  The fold scores that \<open>SelectorCV\<close> observes for one candidate are those of the folds
  before the first one that raises; when the splitter or \<open>split\<close> raises there are none.
  The observed scores of a search are those of its candidates, in the order of the loops.
\<close>

fun scored_prefix :: "(exn + real) list \<Rightarrow> real list" where
  "scored_prefix [] = []"
| "scored_prefix (Inl e # rs) = []"
| "scored_prefix (Inr v # rs) = v # scored_prefix rs"

definition cv_fold_scores :: "('p, 'sp) library \<Rightarrow> ModelSelector \<Rightarrow> int \<Rightarrow> real list" where
  "cv_fold_scores L self i =
     (case KFold L (random_state self) of
        Inl e \<Rightarrow> []
      | Inr split_method \<Rightarrow>
          (case split L split_method (sequences self) of
             Inl e \<Rightarrow> []
           | Inr folds \<Rightarrow>
               scored_prefix (map (\<lambda>(train_idx, test_idx). cv_fold L self i train_idx test_idx) folds)))"

definition cv_observed :: "('p, 'sp) library \<Rightarrow> ModelSelector \<Rightarrow> (int \<times> real) list" where
  "cv_observed L self =
     concat (map (\<lambda>i. map (Pair i) (cv_fold_scores L self i))
               [min_n_components self .. max_n_components self])"

text \<open>
  The arg-max label of a list of (label, score) entries, the first one among equals: the
  first entry that no later entry exceeds.
\<close>

fun arg_max_first :: "('k \<times> xreal) list \<Rightarrow> 'k option" where
  "arg_max_first [] = None"
| "arg_max_first ((w, v) # rest) =
     (if \<forall>x\<in>set rest. snd x \<le> v then Some w else arg_max_first rest)"

text \<open>The scores of one test item under every model of the collection, in its order.\<close>

definition item_scores ::
  "('p, 'sp) library \<Rightarrow> (string \<times> 'p GaussianHMM option) list \<Rightarrow> Xlengths \<Rightarrow> (string \<times> xreal) list" where
  "item_scores L models item =
     map (\<lambda>(word, model). (word, try_score L model (fst item) (snd item))) models"

section \<open>A concrete library and selectors\<close>

text \<open>
  An arithmetic without rounding on finite operands, the only ones that the examples have.
\<close>

definition exact :: "(real \<Rightarrow> real \<Rightarrow> real) \<Rightarrow> pyfloat \<Rightarrow> pyfloat \<Rightarrow> pyfloat" where
  "exact f a b =
     (case a of
        Num (Fin x) \<Rightarrow> (case b of Num (Fin y) \<Rightarrow> Num (Fin (f x y)) | _ \<Rightarrow> NaN)
      | _ \<Rightarrow> NaN)"

text \<open>
  A small library on which the definitions can be evaluated: the fit raises for a
  non-positive state count and for three states on the training data \<open>[[1], [5]]\<close>; the
  score of a model is its state count times the sum of the first frame; the splitter
  gives the three folds of three sequences; the arithmetic does not round.
\<close>

definition ex_library :: "(unit, unit) library" where
  "ex_library =
     \<lparr>hmm_fit = (\<lambda>n rs x ls. if n \<le> 0 \<or> (n = 3 \<and> x = [[1], [5]]) then Inl LibraryError else Inr ()),
      hmm_score = (\<lambda>m x ls. case x of [] \<Rightarrow> Inl LibraryError
                                | f # fs \<Rightarrow> Inr (real_of_int (n_components m) * sum_list f)),
      KFold = (\<lambda>rs. Inr ()),
      split = (\<lambda>sp seqs. if length seqs = 3 then Inr [([1, 2], [0]), ([0, 2], [1]), ([0, 1], [2])]
                          else Inl ValueError),
      combine_sequences = (\<lambda>idx seqs. if \<forall>j\<in>set idx. j < length seqs
                             then Inr (concat (map (\<lambda>j. seqs ! j) idx), map (\<lambda>j. length (seqs ! j)) idx)
                             else Inl IndexError),
      float_add = exact (+),
      float_sub = exact (-),
      float_mul = exact (*),
      int_truediv = (\<lambda>a b. Num (Fin (real_of_int a / real_of_int b))),
      math_log = (\<lambda>n. Num (Fin (ln (real n)))),
      float_of_int = (\<lambda>k. Inr (Num (Fin (real_of_int k))))\<rparr>"

text \<open>
  The same library with an arithmetic that rounds: sums are rounded to integers, the
  quotient of integers is cut after four decimals, and the logarithm is read from a table of
  four decimals.
\<close>

definition ex_library_rounding :: "(unit, unit) library" where
  "ex_library_rounding =
     ex_library
       \<lparr>float_add := (\<lambda>a b. case exact (+) a b of
                                  Num (Fin z) \<Rightarrow> Num (Fin (real_of_int (round z)))
                                | r \<Rightarrow> r),
        int_truediv := (\<lambda>a b. Num (Fin (real_of_int \<lfloor>10000 * real_of_int a / real_of_int b\<rfloor>
                                           / 10000))),
        math_log := (\<lambda>n. Num (Fin (if n = 2 then 6931 / 10000 else 0)))\<rparr>"

definition ex_selector :: ModelSelector where
  "ex_selector =
     \<lparr>words = [(''A'', [[[1]], [[5]], [[2]]]), (''B'', [[[-1]]])],
      hwords = [(''A'', ([[1], [5], [2]], [1, 1, 1])), (''B'', ([[-1]], [1]))],
      sequences = [[[1]], [[5]], [[2]]],
      X = [[1], [5], [2]], lengths = [1, 1, 1], this_word = ''A'',
      n_constant = 3, min_n_components = 2, max_n_components = 4,
      random_state = 14, verbose = False\<rparr>"

text \<open>
  Selectors for \<open>SelectorBIC\<close> with two frames of one feature: one on which every model
  scores zero, and one on which the scores differ.
\<close>

definition ex_selector_two_frames :: ModelSelector where
  "ex_selector_two_frames =
     ex_selector\<lparr>X := [[0], [5]], lengths := [1, 1],
                  min_n_components := 0, max_n_components := 3\<rparr>"

definition ex_selector_quarters :: ModelSelector where
  "ex_selector_quarters =
     ex_selector\<lparr>X := [[7 / 4], [5]], lengths := [1, 1],
                  min_n_components := 0, max_n_components := 3\<rparr>"

text \<open>A selector for \<open>SelectorDIC\<close> with four words.\<close>

definition ex_selector_four_words :: ModelSelector where
  "ex_selector_four_words =
     ex_selector\<lparr>hwords := [(''A'', ([[1], [5], [2]], [1, 1, 1])), (''B'', ([[1]], [1])),
                             (''C'', ([[1]], [1])), (''D'', ([[1]], [1]))]\<rparr>"

text \<open>
  A model collection with an absent model, and a test set whose second item has no frames,
  so that every score of it raises.
\<close>

definition ex_models :: "(string \<times> unit GaussianHMM option) list" where
  "ex_models =
     [(''A'', Some \<lparr>n_components = 2, params = ()\<rparr>),
      (''B'', Some \<lparr>n_components = 3, params = ()\<rparr>),
      (''C'', None),
      (''D'', Some \<lparr>n_components = 3, params = ()\<rparr>)]"

definition ex_test_set :: TestSet where
  "ex_test_set =
     \<lparr>num_items = 2,
      get_item_Xlengths = (\<lambda>i. if i = 0 then Inr ([[1]], [1])
                               else if i = 1 then Inr ([], [])
                               else Inl KeyError)\<rparr>"

text \<open>A collection whose only model is absent, and a test set of one item.\<close>

definition ex_models_absent :: "(string \<times> unit GaussianHMM option) list" where
  "ex_models_absent = [(''A'', None)]"

definition ex_test_one :: TestSet where
  "ex_test_one =
     \<lparr>num_items = 1,
      get_item_Xlengths = (\<lambda>i. if i = 0 then Inr ([[1]], [1]) else Inl KeyError)\<rparr>"

text \<open>
  A library whose splitter cannot be constructed, and a test set whose item access raises.
\<close>

definition ex_library_no_splitter :: "(unit, unit) library" where
  "ex_library_no_splitter = ex_library\<lparr>KFold := (\<lambda>rs. Inl ValueError)\<rparr>"

definition ex_test_missing :: TestSet where
  "ex_test_missing = \<lparr>num_items = 1, get_item_Xlengths = (\<lambda>i. Inl KeyError)\<rparr>"

text \<open>
  A library whose fit raises for two states, and for three states on the training data of the
  third fold; a selector with the candidates 2 and 3; a selector whose candidates are not
  positive, so that every fit raises.
\<close>

definition ex_library_cv :: "(unit, unit) library" where
  "ex_library_cv =
     ex_library\<lparr>hmm_fit := (\<lambda>n rs x ls. if n = 2 \<or> (n = 3 \<and> x = [[1], [5]])
                                          then Inl LibraryError else Inr ())\<rparr>"

definition ex_selector_cv :: ModelSelector where
  "ex_selector_cv = ex_selector\<lparr>max_n_components := 3\<rparr>"

definition ex_selector_nonpositive :: ModelSelector where
  "ex_selector_nonpositive = ex_selector\<lparr>min_n_components := - 1, max_n_components := 0\<rparr>"

text \<open>
  A library whose three-state model scores one fold very high and the others very low,
  while every other model scores 10 on every fold.
\<close>

definition ex_library_peak :: "(unit, unit) library" where
  "ex_library_peak =
     ex_library\<lparr>hmm_score := (\<lambda>m x ls. Inr (if n_components m = 3
                                              then (if x = [[5]] then 100 else - 100)
                                              else 10))\<rparr>"

section \<open>SelectorConstant: the fixed state count\<close>

text \<open>
  C10. \<open>SelectorConstant.select()\<close> does not read the search range: whatever
  \<open>min_n_components\<close> and \<open>max_n_components\<close> are set to, it returns without raising
  the outcome of the single fit at \<open>n_constant\<close> states on the word's own data, which is
  a model with exactly \<open>n_constant\<close> states, or \<open>None\<close> when that fit raises.
\<close>

theorem SelectorConstant_select_n_constant:
  "SelectorConstant_select L (self\<lparr>min_n_components := a, max_n_components := b\<rparr>) =
     Inr (case hmm_fit L (n_constant self) (random_state self) (X self) (lengths self) of
            Inl e \<Rightarrow> None
          | Inr p \<Rightarrow> Some \<lparr>n_components = n_constant self, params = p\<rparr>)"
  by (simp add: SelectorConstant_select_def base_model_def GaussianHMM_fit_def
      split: sum.splits)

section \<open>The concrete selector as constructed\<close>

lemma ex_selector_init:
  "ModelSelector_init [(''A'', [[[1]], [[5]], [[2]]]), (''B'', [[[-1]]])]
     [(''A'', ([[1], [5], [2]], [1, 1, 1])), (''B'', ([[-1]], [1]))] ''A'' 3 2 4 14 False
   = Inr ex_selector"
  by (simp add: ModelSelector_init_def ex_selector_def)

section \<open>Keeping the better value along a list\<close>

lemma keep_better_apply:
  "keep_better beats key val (m, g) x =
     (case val x of None \<Rightarrow> (m, g) | Some v \<Rightarrow> if beats v m then (v, key x) else (m, g))"
  by (simp add: keep_better_def split: option.splits)

lemma foldl_keep_better:
  assumes tr: "\<And>a b c. beats b a \<Longrightarrow> beats c b \<Longrightarrow> beats c a"
      and ng: "\<And>a b c. \<not> beats b a \<Longrightarrow> beats c a \<Longrightarrow> beats c b"
  shows "(foldl (keep_better beats key val) (m0, g0) xs = (m0, g0)
            \<and> (\<forall>x\<in>set xs. \<forall>v. val x = Some v \<longrightarrow> \<not> beats v m0))
       \<or> (\<exists>pre x v post. xs = pre @ x # post \<and> val x = Some v
            \<and> foldl (keep_better beats key val) (m0, g0) xs = (v, key x)
            \<and> beats v m0
            \<and> (\<forall>y\<in>set pre. \<forall>w. val y = Some w \<longrightarrow> beats v w)
            \<and> (\<forall>y\<in>set post. \<forall>w. val y = Some w \<longrightarrow> \<not> beats w v))"
    (is "?A xs \<or> ?B xs")
proof (induction xs rule: rev_induct)
  case Nil
  then show ?case by simp
next
  case (snoc z zs)
  show ?case
  proof (cases "val z")
    case None
    from snoc.IH show ?thesis
    proof
      assume "?A zs"
      with None have "?A (zs @ [z])" by (simp add: keep_better_apply)
      then show ?thesis ..
    next
      assume "?B zs"
      then obtain pre x v post where d: "zs = pre @ x # post" "val x = Some v"
        "foldl (keep_better beats key val) (m0, g0) zs = (v, key x)" "beats v m0"
        "\<forall>y\<in>set pre. \<forall>w. val y = Some w \<longrightarrow> beats v w"
        "\<forall>y\<in>set post. \<forall>w. val y = Some w \<longrightarrow> \<not> beats w v"
        by blast
      have "zs @ [z] = pre @ x # (post @ [z])" using d(1) by simp
      moreover have "foldl (keep_better beats key val) (m0, g0) (zs @ [z]) = (v, key x)"
        using d(3) None by (simp add: keep_better_apply)
      moreover have "\<forall>y\<in>set (post @ [z]). \<forall>w. val y = Some w \<longrightarrow> \<not> beats w v"
        using d(6) None by auto
      ultimately have "?B (zs @ [z])" using d(2,4,5) by blast
      then show ?thesis ..
    qed
  next
    case (Some u)
    from snoc.IH show ?thesis
    proof
      assume a: "?A zs"
      show ?thesis
      proof (cases "beats u m0")
        case True
        have "foldl (keep_better beats key val) (m0, g0) (zs @ [z]) = (u, key z)"
          using a Some True by (simp add: keep_better_apply)
        moreover have "\<forall>y\<in>set zs. \<forall>w. val y = Some w \<longrightarrow> beats u w"
          using a True ng by blast
        ultimately have "?B (zs @ [z])" using Some True
          by (intro exI[of _ zs] exI[of _ z] exI[of _ u] exI[of _ "[]"]) simp
        then show ?thesis ..
      next
        case False
        with a Some have "?A (zs @ [z])" by (simp add: keep_better_apply)
        then show ?thesis ..
      qed
    next
      assume "?B zs"
      then obtain pre x v post where d: "zs = pre @ x # post" "val x = Some v"
        "foldl (keep_better beats key val) (m0, g0) zs = (v, key x)" "beats v m0"
        "\<forall>y\<in>set pre. \<forall>w. val y = Some w \<longrightarrow> beats v w"
        "\<forall>y\<in>set post. \<forall>w. val y = Some w \<longrightarrow> \<not> beats w v"
        by blast
      show ?thesis
      proof (cases "beats u v")
        case True
        have "foldl (keep_better beats key val) (m0, g0) (zs @ [z]) = (u, key z)"
          using d(3) Some True by (simp add: keep_better_apply)
        moreover have "\<forall>y\<in>set zs. \<forall>w. val y = Some w \<longrightarrow> beats u w"
        proof (intro ballI allI impI)
          fix y w assume y: "y \<in> set zs" "val y = Some w"
          from y(1) d(1) consider "y \<in> set pre" | "y = x" | "y \<in> set post" by auto
          then show "beats u w"
          proof cases
            case 1 with d(5) y(2) have "beats v w" by blast
            with True show ?thesis using tr by blast
          next
            case 2 with d(2) y(2) True show ?thesis by simp
          next
            case 3 with d(6) y(2) have "\<not> beats w v" by blast
            with True show ?thesis using ng by blast
          qed
        qed
        moreover have "beats u m0" using True d(4) tr by blast
        ultimately have "?B (zs @ [z])" using Some
          by (intro exI[of _ zs] exI[of _ z] exI[of _ u] exI[of _ "[]"]) simp
        then show ?thesis ..
      next
        case False
        have "zs @ [z] = pre @ x # (post @ [z])" using d(1) by simp
        moreover have "foldl (keep_better beats key val) (m0, g0) (zs @ [z]) = (v, key x)"
          using d(3) Some False by (simp add: keep_better_apply)
        moreover have "\<forall>y\<in>set (post @ [z]). \<forall>w. val y = Some w \<longrightarrow> \<not> beats w v"
          using d(6) Some False by auto
        ultimately have "?B (zs @ [z])" using d(2,4,5) by blast
        then show ?thesis ..
      qed
    qed
  qed
qed

lemma upto_split_sets:
  assumes "[lo..hi] = pre @ k # post"
  shows "set pre = {lo..<k} \<and> set post = {k<..hi} \<and> lo \<le> k \<and> k \<le> hi"
proof -
  have "sorted_wrt (<) [lo..hi]" by (rule sorted_wrt_upto)
  then have s: "sorted_wrt (<) (pre @ k # post)" by (simp only: assms)
  have "set [lo..hi] = {lo..hi}" by (rule set_upto)
  then have u: "set pre \<union> {k} \<union> set post = {lo..hi}"
    by (simp only: assms) simp
  from s have 1: "\<forall>x\<in>set pre. x < k" and 2: "\<forall>y\<in>set post. k < y"
    by (simp_all add: sorted_wrt_append)
  have k: "lo \<le> k \<and> k \<le> hi" using u by auto
  have "set pre = {lo..<k}"
  proof (intro equalityI subsetI)
    fix x assume "x \<in> set pre"
    then show "x \<in> {lo..<k}" using 1 u by auto
  next
    fix x assume x: "x \<in> {lo..<k}"
    then have "x \<in> {lo..hi}" using k by auto
    then have "x \<in> set pre \<union> {k} \<union> set post" using u by simp
    then show "x \<in> set pre" using x 2 by auto
  qed
  moreover have "set post = {k<..hi}"
  proof (intro equalityI subsetI)
    fix x assume "x \<in> set post"
    then show "x \<in> {k<..hi}" using 2 u by auto
  next
    fix x assume x: "x \<in> {k<..hi}"
    then have "x \<in> {lo..hi}" using k by auto
    then have "x \<in> set pre \<union> {k} \<union> set post" using u by simp
    then show "x \<in> set post" using x 1 by auto
  qed
  ultimately show ?thesis using k by simp
qed


lemma range_keep_better:
  fixes val :: "int \<Rightarrow> 'v option"
  assumes tr: "\<And>a b c. beats b a \<Longrightarrow> beats c b \<Longrightarrow> beats c a"
      and ng: "\<And>a b c. \<not> beats b a \<Longrightarrow> beats c a \<Longrightarrow> beats c b"
      and irr: "\<And>a. \<not> beats a a"
  shows "(foldl (keep_better beats (\<lambda>i. i) val) (m0, g0) [lo..hi] = (m0, g0)
            \<and> (\<forall>j\<in>{lo..hi}. \<forall>v. val j = Some v \<longrightarrow> \<not> beats v m0))
       \<or> (\<exists>k m. foldl (keep_better beats (\<lambda>i. i) val) (m0, g0) [lo..hi] = (m, k)
            \<and> lo \<le> k \<and> k \<le> hi \<and> val k = Some m \<and> beats m m0
            \<and> (\<forall>j\<in>{lo..hi}. \<forall>v. val j = Some v \<longrightarrow>
                  \<not> beats v m \<and> (j < k \<longrightarrow> beats m v)))"
proof -
  let ?F = "foldl (keep_better beats (\<lambda>i. i) val) (m0, g0) [lo..hi]"
  have fk: "(?F = (m0, g0) \<and> (\<forall>x\<in>set [lo..hi]. \<forall>v. val x = Some v \<longrightarrow> \<not> beats v m0))
       \<or> (\<exists>pre x v post. [lo..hi] = pre @ x # post \<and> val x = Some v
            \<and> ?F = (v, (\<lambda>i. i) x)
            \<and> beats v m0
            \<and> (\<forall>y\<in>set pre. \<forall>w. val y = Some w \<longrightarrow> beats v w)
            \<and> (\<forall>y\<in>set post. \<forall>w. val y = Some w \<longrightarrow> \<not> beats w v))"
  proof (rule foldl_keep_better)
    show "\<And>a b c. beats b a \<Longrightarrow> beats c b \<Longrightarrow> beats c a" by (rule tr)
    show "\<And>a b c. \<not> beats b a \<Longrightarrow> beats c a \<Longrightarrow> beats c b" by (rule ng)
  qed
  then show ?thesis
  proof (elim disjE conjE exE)
    assume "?F = (m0, g0)" "\<forall>x\<in>set [lo..hi]. \<forall>v. val x = Some v \<longrightarrow> \<not> beats v m0"
    then show ?thesis by simp
  next
    fix pre x m post
    assume d: "[lo..hi] = pre @ x # post" and vx: "val x = Some m" and F: "?F = (m, (\<lambda>i. i) x)"
      and b0: "beats m m0"
      and p: "\<forall>y\<in>set pre. \<forall>w. val y = Some w \<longrightarrow> beats m w"
      and q: "\<forall>y\<in>set post. \<forall>w. val y = Some w \<longrightarrow> \<not> beats w m"
    from upto_split_sets[OF d] have sets: "set pre = {lo..<x}" "set post = {x<..hi}"
      and bounds: "lo \<le> x" "x \<le> hi" by simp_all
    have all: "\<forall>j\<in>{lo..hi}. \<forall>u. val j = Some u \<longrightarrow>
            \<not> beats u m \<and> (j < x \<longrightarrow> beats m u)"
    proof (intro ballI allI impI)
      fix j u assume j: "j \<in> {lo..hi}" and vj: "val j = Some u"
      consider "j < x" | "j = x" | "x < j" by linarith
      then show "\<not> beats u m \<and> (j < x \<longrightarrow> beats m u)"
      proof cases
        case 1
        with j sets have "j \<in> set pre" by simp
        with p vj have b: "beats m u" by blast
        have "\<not> beats u m"
        proof
          assume "beats u m"
          with b have "beats m m" using tr by blast
          with irr show False by blast
        qed
        with b show ?thesis by simp
      next
        case 2
        with vj vx have "u = m" by simp
        with irr 2 show ?thesis by simp
      next
        case 3
        with j sets have "j \<in> set post" by simp
        with q vj have "\<not> beats u m" by blast
        with 3 show ?thesis by simp
      qed
    qed
    from F have "?F = (m, x)" by simp
    with bounds vx b0 all show ?thesis by blast
  qed
qed

lemma PosInf_le: "(PosInf \<le> v) = (v = PosInf)"
  by (cases v) (simp_all add: less_eq_xreal_def)

lemma le_NegInf: "(v \<le> NegInf) = (v = NegInf)"
  by (cases v) (simp_all add: less_eq_xreal_def)

lemma scored_Some: "(scored r = Some v) = (r = Inr (Num v))"
  by (auto simp: scored_def split: sum.splits pyfloat.splits)

section \<open>SelectorBIC: the least BIC\<close>

lemma bic_step_keep_better:
  "bic_step L self = keep_better (\<lambda>v m. v < m) (\<lambda>i. i) (\<lambda>i. scored (bic_try L self i))"
  by (rule ext, rule ext)
     (simp add: bic_step_def keep_better_def scored_def
        split: prod.splits sum.splits pyfloat.splits)

lemma bic_search_cases:
  "(bic_search L self = (PosInf, min_n_components self)
          \<and> (\<forall>j\<in>{min_n_components self .. max_n_components self}. \<forall>v.
                bic_try L self j = Inr (Num v) \<longrightarrow> v = PosInf))
        \<or> (\<exists>k m. bic_search L self = (m, k)
              \<and> min_n_components self \<le> k \<and> k \<le> max_n_components self
              \<and> bic_try L self k = Inr (Num m) \<and> m < PosInf
              \<and> (\<forall>j\<in>{min_n_components self .. max_n_components self}. \<forall>v.
                    bic_try L self j = Inr (Num v) \<longrightarrow> m \<le> v \<and> (j < k \<longrightarrow> m < v)))"
proof -
  let ?val = "\<lambda>i. scored (bic_try L self i)"
  have "(foldl (keep_better (\<lambda>v m. v < m) (\<lambda>i. i) ?val)
           (PosInf, min_n_components self) [min_n_components self .. max_n_components self]
         = (PosInf, min_n_components self)
            \<and> (\<forall>j\<in>{min_n_components self .. max_n_components self}. \<forall>v.
                  ?val j = Some v \<longrightarrow> \<not> v < PosInf))
       \<or> (\<exists>k m. foldl (keep_better (\<lambda>v m. v < m) (\<lambda>i. i) ?val)
           (PosInf, min_n_components self) [min_n_components self .. max_n_components self] = (m, k)
            \<and> min_n_components self \<le> k \<and> k \<le> max_n_components self
            \<and> ?val k = Some m \<and> m < PosInf
            \<and> (\<forall>j\<in>{min_n_components self .. max_n_components self}. \<forall>v. ?val j = Some v \<longrightarrow>
                  \<not> v < m \<and> (j < k \<longrightarrow> m < v)))"
    by (rule range_keep_better) auto
  then show ?thesis
    by (simp add: bic_search_def bic_step_keep_better scored_Some not_less PosInf_le)
qed

lemma bic_try_formula:
  "(bic_try L self i = Inr b) =
     (\<exists>p log_l x0 rest pf.
         hmm_fit L i (random_state self) (X self) (lengths self) = Inr p
         \<and> hmm_score L \<lparr>n_components = i, params = p\<rparr> (X self) (lengths self) = Inr log_l
         \<and> X self = x0 # rest
         \<and> float_of_int L (i\<^sup>2 + 2 * int (length x0) * i - 1) = Inr pf
         \<and> b = float_add L (float_mul L (Num (Fin (- 2))) (Num (Fin log_l)))
                 (float_mul L pf (math_log L (length (X self)))))"
  by (auto simp: bic_try_def GaussianHMM_fit_def Let_def split: sum.splits list.splits)

text \<open>
  C3. \<open>SelectorBIC.select()\<close>: the \<open>try\<close> body of candidate \<open>i\<close> yields a value
  exactly when the fit and the score return, the data has a first frame and \<open>p\<close> converts
  to a float, and the value is \<open>-2 * L + p * ln N\<close> as the float arithmetic of the
  runtime computes it, with \<open>L\<close> the score of the word's own data under the model fit at
  \<open>i\<close> states, \<open>p = i\<^sup>2 + 2 * f * i - 1\<close>, \<open>f\<close> the length of the first frame and
  \<open>N\<close> the number of frames. A candidate with a value replaces the running minimum and the
  best state count exactly when its value is strictly below the minimum; not-a-number never
  does. After the loop, either no candidate of the range has a value below infinity and the
  state is the initial one, or the state holds the least value of the range and the first
  candidate that has it: every candidate with a value has at least that value, and every
  earlier one a strictly greater value. The returned model is \<open>base_model\<close> at that
  state count.
\<close>

theorem SelectorBIC_select_minimum_bic:
  "((bic_try L self i = Inr b) =
      (\<exists>p log_l x0 rest pf.
         hmm_fit L i (random_state self) (X self) (lengths self) = Inr p
         \<and> hmm_score L \<lparr>n_components = i, params = p\<rparr> (X self) (lengths self) = Inr log_l
         \<and> X self = x0 # rest
         \<and> float_of_int L (i\<^sup>2 + 2 * int (length x0) * i - 1) = Inr pf
         \<and> b = float_add L (float_mul L (Num (Fin (- 2))) (Num (Fin log_l)))
                 (float_mul L pf (math_log L (length (X self))))))
   \<and> (bic_try L self i = Inr (Num v) \<longrightarrow>
        bic_step L self (max_bic, max_components) i =
          (if v < max_bic then (v, i) else (max_bic, max_components)))
   \<and> (bic_try L self i = Inr NaN \<longrightarrow>
        bic_step L self (max_bic, max_components) i = (max_bic, max_components))
   \<and> ((bic_search L self = (PosInf, min_n_components self)
          \<and> (\<forall>j\<in>{min_n_components self .. max_n_components self}. \<forall>v.
                bic_try L self j = Inr (Num v) \<longrightarrow> v = PosInf))
        \<or> (\<exists>k m. bic_search L self = (m, k)
              \<and> min_n_components self \<le> k \<and> k \<le> max_n_components self
              \<and> bic_try L self k = Inr (Num m) \<and> m < PosInf
              \<and> (\<forall>j\<in>{min_n_components self .. max_n_components self}. \<forall>v.
                    bic_try L self j = Inr (Num v) \<longrightarrow> m \<le> v \<and> (j < k \<longrightarrow> m < v))))
   \<and> SelectorBIC_select L self = Inr (base_model L self (snd (bic_search L self)))"
proof (intro conjI)
  show "(bic_try L self i = Inr b) =
      (\<exists>p log_l x0 rest pf.
         hmm_fit L i (random_state self) (X self) (lengths self) = Inr p
         \<and> hmm_score L \<lparr>n_components = i, params = p\<rparr> (X self) (lengths self) = Inr log_l
         \<and> X self = x0 # rest
         \<and> float_of_int L (i\<^sup>2 + 2 * int (length x0) * i - 1) = Inr pf
         \<and> b = float_add L (float_mul L (Num (Fin (- 2))) (Num (Fin log_l)))
                 (float_mul L pf (math_log L (length (X self)))))"
    by (rule bic_try_formula)
  show "bic_try L self i = Inr (Num v) \<longrightarrow>
        bic_step L self (max_bic, max_components) i =
          (if v < max_bic then (v, i) else (max_bic, max_components))"
    by (simp add: bic_step_def)
  show "bic_try L self i = Inr NaN \<longrightarrow>
        bic_step L self (max_bic, max_components) i = (max_bic, max_components)"
    by (simp add: bic_step_def)
  show "(bic_search L self = (PosInf, min_n_components self)
          \<and> (\<forall>j\<in>{min_n_components self .. max_n_components self}. \<forall>v.
                bic_try L self j = Inr (Num v) \<longrightarrow> v = PosInf))
        \<or> (\<exists>k m. bic_search L self = (m, k)
              \<and> min_n_components self \<le> k \<and> k \<le> max_n_components self
              \<and> bic_try L self k = Inr (Num m) \<and> m < PosInf
              \<and> (\<forall>j\<in>{min_n_components self .. max_n_components self}. \<forall>v.
                    bic_try L self j = Inr (Num v) \<longrightarrow> m \<le> v \<and> (j < k \<longrightarrow> m < v)))"
    by (rule bic_search_cases)
  show "SelectorBIC_select L self = Inr (base_model L self (snd (bic_search L self)))"
    by (simp add: SelectorBIC_select_def split: prod.splits)
qed

lemma ex_bic_two_frames:
  "bic_try ex_library ex_selector_two_frames 0 = Inl LibraryError"
  "bic_try ex_library ex_selector_two_frames 1 = Inr (Num (Fin (2 * ln 2)))"
  "bic_try ex_library ex_selector_two_frames 2 = Inr (Num (Fin (7 * ln 2)))"
  "bic_try ex_library ex_selector_two_frames 3 = Inr (Num (Fin (14 * ln 2)))"
  by (simp_all add: bic_try_def GaussianHMM_fit_def ex_library_def exact_def
      ex_selector_two_frames_def ex_selector_def)

lemma ex_bic_quarters:
  "bic_try ex_library_rounding ex_selector_quarters 0 = Inl LibraryError"
  "bic_try ex_library_rounding ex_selector_quarters 1 = Inr (Num (Fin (- 2)))"
  "bic_try ex_library_rounding ex_selector_quarters 2 = Inr (Num (Fin (- 2)))"
  "bic_try ex_library_rounding ex_selector_quarters 3 = Inr (Num (Fin (- 1)))"
  by (simp_all add: bic_try_def GaussianHMM_fit_def ex_library_rounding_def ex_library_def
      exact_def ex_selector_quarters_def ex_selector_def round_def)

lemma ex_bic_quarters_unrounded:
  "bic_try (ex_library_rounding\<lparr>float_add := exact (+)\<rparr>) ex_selector_quarters 1
     = Inr (Num (Fin (- 21138 / 10000)))"
  "bic_try (ex_library_rounding\<lparr>float_add := exact (+)\<rparr>) ex_selector_quarters 2
     = Inr (Num (Fin (- 21483 / 10000)))"
  by (simp_all add: bic_try_def GaussianHMM_fit_def ex_library_rounding_def ex_library_def
      exact_def ex_selector_quarters_def ex_selector_def)

theorem SelectorBIC_select_minimum_bic_witness:
  "bic_try ex_library ex_selector_two_frames 0 = Inl LibraryError
   \<and> bic_try ex_library ex_selector_two_frames 1 = Inr (Num (Fin (2 * ln 2)))
   \<and> bic_step ex_library ex_selector_two_frames (PosInf, 0) 1 = (Fin (2 * ln 2), 1)
   \<and> bic_try ex_library ex_selector_two_frames 2 = Inr (Num (Fin (7 * ln 2)))
   \<and> bic_try ex_library ex_selector_two_frames 3 = Inr (Num (Fin (14 * ln 2)))
   \<and> bic_search ex_library ex_selector_two_frames = (Fin (2 * ln 2), 1)
   \<and> SelectorBIC_select ex_library ex_selector_two_frames
       = Inr (Some \<lparr>n_components = 1, params = ()\<rparr>)
   \<and> bic_try (ex_library_rounding\<lparr>float_add := exact (+)\<rparr>) ex_selector_quarters 1
       = Inr (Num (Fin (- 21138 / 10000)))
   \<and> bic_try (ex_library_rounding\<lparr>float_add := exact (+)\<rparr>) ex_selector_quarters 2
       = Inr (Num (Fin (- 21483 / 10000)))
   \<and> bic_try ex_library_rounding ex_selector_quarters 1 = Inr (Num (Fin (- 2)))
   \<and> bic_try ex_library_rounding ex_selector_quarters 2 = Inr (Num (Fin (- 2)))
   \<and> bic_try ex_library_rounding ex_selector_quarters 3 = Inr (Num (Fin (- 1)))
   \<and> bic_search ex_library_rounding ex_selector_quarters = (Fin (- 2), 1)"
proof -
  note t = ex_bic_two_frames
  have r: "min_n_components ex_selector_two_frames = 0"
    "max_n_components ex_selector_two_frames = 3"
    by (simp_all add: ex_selector_two_frames_def ex_selector_def)
  have s: "bic_search ex_library ex_selector_two_frames = (Fin (2 * ln 2), 1)"
    by (simp add: bic_search_def r upto.simps bic_step_def t)
  have b: "base_model ex_library ex_selector_two_frames 1 = Some \<lparr>n_components = 1, params = ()\<rparr>"
    by (simp add: base_model_def GaussianHMM_fit_def ex_library_def
        ex_selector_two_frames_def ex_selector_def)
  have r': "min_n_components ex_selector_quarters = 0"
    "max_n_components ex_selector_quarters = 3"
    by (simp_all add: ex_selector_quarters_def ex_selector_def)
  have s': "bic_search ex_library_rounding ex_selector_quarters = (Fin (- 2), 1)"
    by (simp add: bic_search_def r' upto.simps bic_step_def ex_bic_quarters)
  from SelectorBIC_select_minimum_bic
         [of ex_library ex_selector_two_frames 1 "Num (Fin (2 * ln 2))" "Fin (2 * ln 2)" PosInf 0]
  show ?thesis using t s b s' ex_bic_quarters ex_bic_quarters_unrounded by simp
qed

section \<open>SelectorDIC: the greatest DIC\<close>

lemma dic_step_keep_better:
  "dic_step L self = keep_better (\<lambda>v m. m < v) (\<lambda>i. i) (\<lambda>i. scored (dic_try L self i))"
  by (rule ext, rule ext)
     (simp add: dic_step_def keep_better_def scored_def
        split: prod.splits sum.splits pyfloat.splits)

lemma dic_search_cases:
  "(dic_search L self = (NegInf, min_n_components self)
          \<and> (\<forall>j\<in>{min_n_components self .. max_n_components self}. \<forall>v.
                dic_try L self j = Inr (Num v) \<longrightarrow> v = NegInf))
        \<or> (\<exists>k m. dic_search L self = (m, k)
              \<and> min_n_components self \<le> k \<and> k \<le> max_n_components self
              \<and> dic_try L self k = Inr (Num m) \<and> NegInf < m
              \<and> (\<forall>j\<in>{min_n_components self .. max_n_components self}. \<forall>v.
                    dic_try L self j = Inr (Num v) \<longrightarrow> v \<le> m \<and> (j < k \<longrightarrow> v < m)))"
proof -
  let ?val = "\<lambda>i. scored (dic_try L self i)"
  have "(foldl (keep_better (\<lambda>v m. m < v) (\<lambda>i. i) ?val)
           (NegInf, min_n_components self) [min_n_components self .. max_n_components self]
         = (NegInf, min_n_components self)
            \<and> (\<forall>j\<in>{min_n_components self .. max_n_components self}. \<forall>v.
                  ?val j = Some v \<longrightarrow> \<not> NegInf < v))
       \<or> (\<exists>k m. foldl (keep_better (\<lambda>v m. m < v) (\<lambda>i. i) ?val)
           (NegInf, min_n_components self) [min_n_components self .. max_n_components self] = (m, k)
            \<and> min_n_components self \<le> k \<and> k \<le> max_n_components self
            \<and> ?val k = Some m \<and> NegInf < m
            \<and> (\<forall>j\<in>{min_n_components self .. max_n_components self}. \<forall>v. ?val j = Some v \<longrightarrow>
                  \<not> m < v \<and> (j < k \<longrightarrow> v < m)))"
    by (rule range_keep_better) auto
  then show ?thesis
    by (simp add: dic_search_def dic_step_keep_better scored_Some not_less le_NegInf)
qed

lemma dic_others_sum:
  assumes "\<forall>e\<in>set items. fst e \<noteq> w \<longrightarrow> hmm_score L model (fst (snd e)) (snd (snd e)) = Inr (s e)"
  shows "dic_others L model w items acc = Inr (foldl (float_add L) acc (map (\<lambda>e. Num (Fin (s e))) (filter (\<lambda>e. fst e \<noteq> w) items)))"
  using assms
proof (induction items arbitrary: acc)
  case Nil
  then show ?case by simp
next
  case (Cons e items)
  obtain key x l where e: "e = (key, (x, l))" by (cases e) auto
  show ?case
  proof (cases "key = w")
    case True
    with Cons e show ?thesis by simp
  next
    case False
    with Cons.prems e have "hmm_score L model x l = Inr (s e)" by simp
    with Cons False e show ?thesis by simp
  qed
qed

lemma dic_others_scored:
  assumes "dic_others L model w items acc = Inr r"
  shows "\<forall>e\<in>set items. fst e \<noteq> w \<longrightarrow> (\<exists>v. hmm_score L model (fst (snd e)) (snd (snd e)) = Inr v)"
  using assms
proof (induction items arbitrary: acc)
  case Nil
  then show ?case by simp
next
  case (Cons e items)
  obtain key x l where e: "e = (key, (x, l))" by (cases e) auto
  show ?case
  proof (cases "key = w")
    case True
    with Cons e show ?thesis by simp
  next
    case False
    with Cons.prems e obtain v where v: "hmm_score L model x l = Inr v"
      by (cases "hmm_score L model x l") auto
    with Cons.prems False e
    have "dic_others L model w items (float_add L acc (Num (Fin v))) = Inr r" by simp
    with Cons.IH have "\<forall>e\<in>set items. fst e \<noteq> w \<longrightarrow>
        (\<exists>v. hmm_score L model (fst (snd e)) (snd (snd e)) = Inr v)" by blast
    with v e show ?thesis by simp
  qed
qed

lemma dic_others_iff:
  "(dic_others L model w items acc = Inr r) =
     (\<exists>s. (\<forall>e\<in>set items. fst e \<noteq> w \<longrightarrow>
              hmm_score L model (fst (snd e)) (snd (snd e)) = Inr (s e))
          \<and> r = foldl (float_add L) acc (map (\<lambda>e. Num (Fin (s e))) (filter (\<lambda>e. fst e \<noteq> w) items)))"
  (is "?lhs = (\<exists>s. ?P s)")
proof
  assume a: ?lhs
  let ?s = "\<lambda>e. projr (hmm_score L model (fst (snd e)) (snd (snd e)))"
  have s: "\<forall>e\<in>set items. fst e \<noteq> w \<longrightarrow>
             hmm_score L model (fst (snd e)) (snd (snd e)) = Inr (?s e)"
  proof (intro ballI impI)
    fix e assume "e \<in> set items" "fst e \<noteq> w"
    with dic_others_scored[OF a]
    obtain v where "hmm_score L model (fst (snd e)) (snd (snd e)) = Inr v" by blast
    then show "hmm_score L model (fst (snd e)) (snd (snd e)) = Inr (?s e)" by simp
  qed
  have "dic_others L model w items acc
          = Inr (foldl (float_add L) acc
                   (map (\<lambda>e. Num (Fin (?s e))) (filter (\<lambda>e. fst e \<noteq> w) items)))"
    by (rule dic_others_sum) (rule s)
  with a have "r = foldl (float_add L) acc
                   (map (\<lambda>e. Num (Fin (?s e))) (filter (\<lambda>e. fst e \<noteq> w) items))" by simp
  with s have ps: "?P ?s" by (rule conjI)
  show "\<exists>s. ?P s" by (rule exI[of _ ?s]) (rule ps)
next
  assume "\<exists>s. ?P s"
  then obtain s where s: "\<forall>e\<in>set items. fst e \<noteq> w \<longrightarrow>
              hmm_score L model (fst (snd e)) (snd (snd e)) = Inr (s e)"
    and r: "r = foldl (float_add L) acc (map (\<lambda>e. Num (Fin (s e))) (filter (\<lambda>e. fst e \<noteq> w) items))"
    by (elim exE conjE)
  have "dic_others L model w items acc = Inr (foldl (float_add L) acc (map (\<lambda>e. Num (Fin (s e))) (filter (\<lambda>e. fst e \<noteq> w) items)))"
    by (rule dic_others_sum) (rule s)
  with r show ?lhs by simp
qed

lemma dic_try_formula:
  "(dic_try L self i = Inr d) =
     (\<exists>p l_own s.
         hmm_fit L i (random_state self) (X self) (lengths self) = Inr p
         \<and> hmm_score L \<lparr>n_components = i, params = p\<rparr> (X self) (lengths self) = Inr l_own
         \<and> (\<forall>e\<in>set (hwords self). fst e \<noteq> this_word self \<longrightarrow>
               hmm_score L \<lparr>n_components = i, params = p\<rparr> (fst (snd e)) (snd (snd e)) = Inr (s e))
         \<and> length (hwords self) \<noteq> 1
         \<and> d = float_sub L (Num (Fin l_own))
                 (float_mul L (int_truediv L 1 (int (length (hwords self)) - 1))
                    (foldl (float_add L) (Num (Fin 0))
                       (map (\<lambda>e. Num (Fin (s e)))
                          (filter (\<lambda>e. fst e \<noteq> this_word self) (hwords self))))))"
  (is "?lhs = ?rhs")
proof
  assume a: ?lhs
  from a obtain p where p: "hmm_fit L i (random_state self) (X self) (lengths self) = Inr p"
    by (cases "hmm_fit L i (random_state self) (X self) (lengths self)")
       (simp_all add: dic_try_def GaussianHMM_fit_def)
  let ?m = "\<lparr>n_components = i, params = p\<rparr>"
  from a p obtain l_own where o: "hmm_score L ?m (X self) (lengths self) = Inr l_own"
    by (cases "hmm_score L ?m (X self) (lengths self)")
       (simp_all add: dic_try_def GaussianHMM_fit_def)
  from a p o obtain ws where
    w: "dic_others L ?m (this_word self) (hwords self) (Num (Fin 0)) = Inr ws"
    by (cases "dic_others L ?m (this_word self) (hwords self) (Num (Fin 0))")
       (simp_all add: dic_try_def GaussianHMM_fit_def)
  from a p o w have n: "length (hwords self) \<noteq> 1"
    by (auto simp: dic_try_def GaussianHMM_fit_def split: if_splits)
  from a p o w n have d: "d = float_sub L (Num (Fin l_own))
                 (float_mul L (int_truediv L 1 (int (length (hwords self)) - 1)) ws)"
    by (simp add: dic_try_def GaussianHMM_fit_def)
  from w obtain s where s: "\<forall>e\<in>set (hwords self). fst e \<noteq> this_word self \<longrightarrow>
              hmm_score L ?m (fst (snd e)) (snd (snd e)) = Inr (s e)"
      "ws = foldl (float_add L) (Num (Fin 0))
              (map (\<lambda>e. Num (Fin (s e))) (filter (\<lambda>e. fst e \<noteq> this_word self) (hwords self)))"
    unfolding dic_others_iff by (elim exE conjE)
  from s(2) d have d': "d = float_sub L (Num (Fin l_own))
                 (float_mul L (int_truediv L 1 (int (length (hwords self)) - 1))
                    (foldl (float_add L) (Num (Fin 0))
                       (map (\<lambda>e. Num (Fin (s e)))
                          (filter (\<lambda>e. fst e \<noteq> this_word self) (hwords self)))))" by simp
  show ?rhs
    by (intro exI[of _ p] exI[of _ l_own] exI[of _ s] conjI) (rule p o s(1) n d')+
next
  assume ?rhs
  then obtain p l_own s where
    p: "hmm_fit L i (random_state self) (X self) (lengths self) = Inr p"
    and o: "hmm_score L \<lparr>n_components = i, params = p\<rparr> (X self) (lengths self) = Inr l_own"
    and s: "\<forall>e\<in>set (hwords self). fst e \<noteq> this_word self \<longrightarrow>
              hmm_score L \<lparr>n_components = i, params = p\<rparr> (fst (snd e)) (snd (snd e)) = Inr (s e)"
    and n: "length (hwords self) \<noteq> 1"
    and d: "d = float_sub L (Num (Fin l_own))
                 (float_mul L (int_truediv L 1 (int (length (hwords self)) - 1))
                    (foldl (float_add L) (Num (Fin 0))
                       (map (\<lambda>e. Num (Fin (s e)))
                          (filter (\<lambda>e. fst e \<noteq> this_word self) (hwords self)))))"
    by (elim exE conjE)
  have w: "dic_others L \<lparr>n_components = i, params = p\<rparr> (this_word self) (hwords self) (Num (Fin 0))
            = Inr (foldl (float_add L) (Num (Fin 0))
                     (map (\<lambda>e. Num (Fin (s e)))
                        (filter (\<lambda>e. fst e \<noteq> this_word self) (hwords self))))"
    by (rule dic_others_sum) (rule s)
  from p o w n d show ?lhs
    by (simp add: dic_try_def GaussianHMM_fit_def)
qed

text \<open>
  C4. \<open>SelectorDIC.select()\<close>: the \<open>try\<close> body of candidate \<open>i\<close> yields a value
  exactly when the fit returns, the model scores the word's own data and the data of every
  other entry of \<open>hwords\<close>, and \<open>hwords\<close> does not have exactly one entry; the value
  is \<open>L_own - 1 / (M - 1) * S\<close> as the float arithmetic of the runtime computes it, with
  \<open>L_own\<close> the score of the own data, \<open>S\<close> the sum, added up from zero in the order of
  \<open>hwords\<close>, of the scores of the entries whose key is not the target word, and \<open>M\<close>
  the number of entries of \<open>hwords\<close>. A candidate with a value replaces the running
  maximum and the best state count exactly when its value is strictly above the maximum;
  not-a-number never does. After the loop, either no candidate of the range has a value
  above negative infinity and the state is the initial one, or the state holds the greatest
  value of the range and the first candidate that has it. The returned model is
  \<open>base_model\<close> at that state count.
\<close>

theorem SelectorDIC_select_maximum_dic:
  "((dic_try L self i = Inr d) =
      (\<exists>p l_own s.
         hmm_fit L i (random_state self) (X self) (lengths self) = Inr p
         \<and> hmm_score L \<lparr>n_components = i, params = p\<rparr> (X self) (lengths self) = Inr l_own
         \<and> (\<forall>e\<in>set (hwords self). fst e \<noteq> this_word self \<longrightarrow>
               hmm_score L \<lparr>n_components = i, params = p\<rparr> (fst (snd e)) (snd (snd e)) = Inr (s e))
         \<and> length (hwords self) \<noteq> 1
         \<and> d = float_sub L (Num (Fin l_own))
                 (float_mul L (int_truediv L 1 (int (length (hwords self)) - 1))
                    (foldl (float_add L) (Num (Fin 0))
                       (map (\<lambda>e. Num (Fin (s e)))
                          (filter (\<lambda>e. fst e \<noteq> this_word self) (hwords self)))))))
   \<and> (dic_try L self i = Inr (Num v) \<longrightarrow>
        dic_step L self (max_dic, max_components) i =
          (if max_dic < v then (v, i) else (max_dic, max_components)))
   \<and> (dic_try L self i = Inr NaN \<longrightarrow>
        dic_step L self (max_dic, max_components) i = (max_dic, max_components))
   \<and> ((dic_search L self = (NegInf, min_n_components self)
          \<and> (\<forall>j\<in>{min_n_components self .. max_n_components self}. \<forall>v.
                dic_try L self j = Inr (Num v) \<longrightarrow> v = NegInf))
        \<or> (\<exists>k m. dic_search L self = (m, k)
              \<and> min_n_components self \<le> k \<and> k \<le> max_n_components self
              \<and> dic_try L self k = Inr (Num m) \<and> NegInf < m
              \<and> (\<forall>j\<in>{min_n_components self .. max_n_components self}. \<forall>v.
                    dic_try L self j = Inr (Num v) \<longrightarrow> v \<le> m \<and> (j < k \<longrightarrow> v < m))))
   \<and> SelectorDIC_select L self = Inr (base_model L self (snd (dic_search L self)))"
proof (intro conjI)
  show "(dic_try L self i = Inr d) =
      (\<exists>p l_own s.
         hmm_fit L i (random_state self) (X self) (lengths self) = Inr p
         \<and> hmm_score L \<lparr>n_components = i, params = p\<rparr> (X self) (lengths self) = Inr l_own
         \<and> (\<forall>e\<in>set (hwords self). fst e \<noteq> this_word self \<longrightarrow>
               hmm_score L \<lparr>n_components = i, params = p\<rparr> (fst (snd e)) (snd (snd e)) = Inr (s e))
         \<and> length (hwords self) \<noteq> 1
         \<and> d = float_sub L (Num (Fin l_own))
                 (float_mul L (int_truediv L 1 (int (length (hwords self)) - 1))
                    (foldl (float_add L) (Num (Fin 0))
                       (map (\<lambda>e. Num (Fin (s e)))
                          (filter (\<lambda>e. fst e \<noteq> this_word self) (hwords self))))))"
    by (rule dic_try_formula)
  show "dic_try L self i = Inr (Num v) \<longrightarrow>
        dic_step L self (max_dic, max_components) i =
          (if max_dic < v then (v, i) else (max_dic, max_components))"
    by (simp add: dic_step_def)
  show "dic_try L self i = Inr NaN \<longrightarrow>
        dic_step L self (max_dic, max_components) i = (max_dic, max_components)"
    by (simp add: dic_step_def)
  show "(dic_search L self = (NegInf, min_n_components self)
          \<and> (\<forall>j\<in>{min_n_components self .. max_n_components self}. \<forall>v.
                dic_try L self j = Inr (Num v) \<longrightarrow> v = NegInf))
        \<or> (\<exists>k m. dic_search L self = (m, k)
              \<and> min_n_components self \<le> k \<and> k \<le> max_n_components self
              \<and> dic_try L self k = Inr (Num m) \<and> NegInf < m
              \<and> (\<forall>j\<in>{min_n_components self .. max_n_components self}. \<forall>v.
                    dic_try L self j = Inr (Num v) \<longrightarrow> v \<le> m \<and> (j < k \<longrightarrow> v < m)))"
    by (rule dic_search_cases)
  show "SelectorDIC_select L self = Inr (base_model L self (snd (dic_search L self)))"
    by (simp add: SelectorDIC_select_def split: prod.splits)
qed

lemma ex_dic_two_words:
  "dic_try ex_library ex_selector 2 = Inr (Num (Fin 4))"
  "dic_try ex_library ex_selector 3 = Inr (Num (Fin 6))"
  "dic_try ex_library ex_selector 4 = Inr (Num (Fin 8))"
  by (simp_all add: dic_try_def GaussianHMM_fit_def ex_library_def exact_def ex_selector_def)

lemma ex_dic_four_words:
  "dic_try ex_library ex_selector_four_words 2 = Inr (Num (Fin 0))"
  "dic_try ex_library ex_selector_four_words 3 = Inr (Num (Fin 0))"
  "dic_try ex_library ex_selector_four_words 4 = Inr (Num (Fin 0))"
  by (simp_all add: dic_try_def GaussianHMM_fit_def ex_library_def exact_def
      ex_selector_four_words_def ex_selector_def)

lemma ex_dic_four_words_rounding:
  "dic_try ex_library_rounding ex_selector_four_words 2 = Inr (Num (Fin (2 / 10000)))"
  "dic_try ex_library_rounding ex_selector_four_words 3 = Inr (Num (Fin (3 / 10000)))"
  "dic_try ex_library_rounding ex_selector_four_words 4 = Inr (Num (Fin (4 / 10000)))"
  by (simp_all add: dic_try_def GaussianHMM_fit_def ex_library_rounding_def ex_library_def
      exact_def ex_selector_four_words_def ex_selector_def round_def)

theorem SelectorDIC_select_maximum_dic_witness:
  "dic_try ex_library ex_selector 2 = Inr (Num (Fin 4))
   \<and> dic_step ex_library ex_selector (NegInf, 2) 2 = (Fin 4, 2)
   \<and> dic_try ex_library ex_selector 3 = Inr (Num (Fin 6))
   \<and> dic_try ex_library ex_selector 4 = Inr (Num (Fin 8))
   \<and> dic_search ex_library ex_selector = (Fin 8, 4)
   \<and> SelectorDIC_select ex_library ex_selector = Inr (Some \<lparr>n_components = 4, params = ()\<rparr>)
   \<and> length (hwords ex_selector_four_words) = 4
   \<and> dic_try ex_library ex_selector_four_words 2 = Inr (Num (Fin 0))
   \<and> dic_try ex_library ex_selector_four_words 3 = Inr (Num (Fin 0))
   \<and> dic_try ex_library ex_selector_four_words 4 = Inr (Num (Fin 0))
   \<and> dic_search ex_library ex_selector_four_words = (Fin 0, 2)
   \<and> dic_try ex_library_rounding ex_selector_four_words 2 = Inr (Num (Fin (2 / 10000)))
   \<and> dic_try ex_library_rounding ex_selector_four_words 3 = Inr (Num (Fin (3 / 10000)))
   \<and> dic_try ex_library_rounding ex_selector_four_words 4 = Inr (Num (Fin (4 / 10000)))
   \<and> dic_search ex_library_rounding ex_selector_four_words = (Fin (4 / 10000), 4)"
proof -
  note t = ex_dic_two_words
  have r: "min_n_components ex_selector = 2" "max_n_components ex_selector = 4"
    by (simp_all add: ex_selector_def)
  have s: "dic_search ex_library ex_selector = (Fin 8, 4)"
    by (simp add: dic_search_def r upto.simps dic_step_def t)
  have b: "base_model ex_library ex_selector 4 = Some \<lparr>n_components = 4, params = ()\<rparr>"
    by (simp add: base_model_def GaussianHMM_fit_def ex_library_def ex_selector_def)
  have r4: "min_n_components ex_selector_four_words = 2"
    "max_n_components ex_selector_four_words = 4"
    "length (hwords ex_selector_four_words) = 4"
    by (simp_all add: ex_selector_four_words_def ex_selector_def)
  have s4: "dic_search ex_library ex_selector_four_words = (Fin 0, 2)"
    by (simp add: dic_search_def r4 upto.simps dic_step_def ex_dic_four_words)
  have s4': "dic_search ex_library_rounding ex_selector_four_words = (Fin (4 / 10000), 4)"
    by (simp add: dic_search_def r4 upto.simps dic_step_def ex_dic_four_words_rounding)
  from SelectorDIC_select_maximum_dic
         [of ex_library ex_selector 2 "Num (Fin 4)" "Fin 4" NegInf 2]
  show ?thesis
    using t s b r4 s4 s4' ex_dic_four_words ex_dic_four_words_rounding by simp
qed

section \<open>SelectorCV: the highest fold score\<close>

lemma cv_folds_keep_better:
  "fst (cv_folds L self i folds st) =
     foldl (keep_better (\<lambda>v m. m < v) fst (\<lambda>x. Some (Fin (snd x)))) st
       (map (Pair i) (scored_prefix (map (\<lambda>(train_idx, test_idx). cv_fold L self i train_idx test_idx) folds)))"
proof (induction folds arbitrary: st)
  case Nil
  then show ?case by simp
next
  case (Cons f folds)
  obtain train_idx test_idx where f: "f = (train_idx, test_idx)" by (cases f) auto
  obtain max_score max_components where st: "st = (max_score, max_components)" by (cases st) auto
  show ?case
  proof (cases "cv_fold L self i train_idx test_idx")
    case (Inl e)
    with f st show ?thesis by simp
  next
    case (Inr log_l)
    with f st Cons.IH show ?thesis by (simp add: keep_better_apply)
  qed
qed

lemma cv_loop_keep_better:
  assumes "KFold L (random_state self) = Inr split_method"
  shows "cv_loop L self cands st =
     Inr (foldl (keep_better (\<lambda>v m. m < v) fst (\<lambda>x. Some (Fin (snd x)))) st
            (concat (map (\<lambda>i. map (Pair i) (cv_fold_scores L self i)) cands)))"
proof (induction cands arbitrary: st)
  case Nil
  then show ?case by simp
next
  case (Cons i cands)
  show ?case
  proof (cases "split L split_method (sequences self)")
    case (Inl e)
    with assms Cons.IH show ?thesis by (simp add: cv_fold_scores_def)
  next
    case (Inr folds)
    with assms Cons.IH show ?thesis
      by (simp add: cv_fold_scores_def cv_folds_keep_better)
  qed
qed

lemma cv_search_keep_better:
  assumes "KFold L (random_state self) = Inr split_method"
  shows "cv_search L self =
     Inr (foldl (keep_better (\<lambda>v m. m < v) fst (\<lambda>x. Some (Fin (snd x))))
            (NegInf, min_n_components self) (cv_observed L self))"
  unfolding cv_search_def cv_observed_def by (rule cv_loop_keep_better) (rule assms)

lemma keep_highest_cases:
  fixes obs :: "('k \<times> real) list"
  shows "(obs = [] \<and> foldl (keep_better (\<lambda>v m. m < v) fst (\<lambda>x. Some (Fin (snd x)))) (NegInf, g0) obs = (NegInf, g0))
     \<or> (obs \<noteq> [] \<and> (\<exists>pre k post. obs = pre @ (k, Max (snd ` set obs)) # post
            \<and> (\<forall>x\<in>set pre. snd x < Max (snd ` set obs))
            \<and> foldl (keep_better (\<lambda>v m. m < v) fst (\<lambda>x. Some (Fin (snd x)))) (NegInf, g0) obs
                = (Fin (Max (snd ` set obs)), k)))"
proof -
  let ?F = "foldl (keep_better (\<lambda>v m. m < v) fst (\<lambda>x. Some (Fin (snd x)))) (NegInf, g0) obs"
  have fk: "(?F = (NegInf, g0)
            \<and> (\<forall>x\<in>set obs. \<forall>v. Some (Fin (snd x)) = Some v \<longrightarrow> \<not> NegInf < v))
       \<or> (\<exists>pre x v post. obs = pre @ x # post \<and> Some (Fin (snd x)) = Some v
            \<and> ?F = (v, fst x)
            \<and> NegInf < v
            \<and> (\<forall>y\<in>set pre. \<forall>w. Some (Fin (snd y)) = Some w \<longrightarrow> w < v)
            \<and> (\<forall>y\<in>set post. \<forall>w. Some (Fin (snd y)) = Some w \<longrightarrow> \<not> v < w))"
    by (rule foldl_keep_better) auto
  then show ?thesis
  proof (elim disjE conjE exE)
    assume F: "?F = (NegInf, g0)"
      and n: "\<forall>x\<in>set obs. \<forall>v. Some (Fin (snd x)) = Some v \<longrightarrow> \<not> NegInf < v"
    have "obs = []"
    proof (cases obs)
      case Nil
      then show ?thesis .
    next
      case (Cons x xs)
      then have "x \<in> set obs" by simp
      with n have "\<not> NegInf < Fin (snd x)" by blast
      then show ?thesis by simp
    qed
    with F show ?thesis by simp
  next
    fix pre x v post
    assume d: "obs = pre @ x # post" and v: "Some (Fin (snd x)) = Some v"
      and F: "?F = (v, fst x)"
      and p: "\<forall>y\<in>set pre. \<forall>w. Some (Fin (snd y)) = Some w \<longrightarrow> w < v"
      and q: "\<forall>y\<in>set post. \<forall>w. Some (Fin (snd y)) = Some w \<longrightarrow> \<not> v < w"
    from v have v': "v = Fin (snd x)" by simp
    have p': "\<forall>y\<in>set pre. snd y < snd x"
    proof
      fix y assume "y \<in> set pre"
      with p v' have "Fin (snd y) < Fin (snd x)" by simp
      then show "snd y < snd x" by simp
    qed
    have q': "\<forall>y\<in>set post. snd y \<le> snd x"
    proof
      fix y assume "y \<in> set post"
      with q v' have "\<not> Fin (snd x) < Fin (snd y)" by simp
      then show "snd y \<le> snd x" by simp
    qed
    have m: "Max (snd ` set obs) = snd x"
    proof (rule Max_eqI)
      show "finite (snd ` set obs)" by simp
      show "snd x \<in> snd ` set obs" using d by simp
      fix y assume "y \<in> snd ` set obs"
      then obtain z where z: "z \<in> set obs" "y = snd z" by blast
      from z(1) d consider "z \<in> set pre" | "z = x" | "z \<in> set post" by auto
      then show "y \<le> snd x"
      proof cases
        case 1 with p' z(2) show ?thesis by (simp add: less_imp_le)
      next
        case 2 with z(2) show ?thesis by simp
      next
        case 3 with q' z(2) show ?thesis by simp
      qed
    qed
    have e: "obs = pre @ (fst x, Max (snd ` set obs)) # post" using d m by simp
    have ne: "obs \<noteq> []" using d by simp
    have p'': "\<forall>x\<in>set pre. snd x < Max (snd ` set obs)" using p' m by simp
    have F': "?F = (Fin (Max (snd ` set obs)), fst x)" using F v' m by simp
    from e p'' F' have "\<exists>pre k post. obs = pre @ (k, Max (snd ` set obs)) # post
            \<and> (\<forall>x\<in>set pre. snd x < Max (snd ` set obs))
            \<and> ?F = (Fin (Max (snd ` set obs)), k)"
      by blast
    with ne show ?thesis by blast
  qed
qed


lemma ex_peak:
  "cv_observed ex_library_peak ex_selector
       = [(2, 10), (2, 10), (2, 10), (3, - 100), (3, 100), (4, 10), (4, 10), (4, 10)]
   \<and> cv_search ex_library_peak ex_selector = Inr (Fin 100, 3)"
proof -
  have k: "KFold ex_library_peak (random_state ex_selector) = Inr ()"
    by (simp add: ex_library_peak_def ex_library_def)
  have f: "cv_fold_scores ex_library_peak ex_selector 2 = [10, 10, 10]"
    "cv_fold_scores ex_library_peak ex_selector 3 = [- 100, 100]"
    "cv_fold_scores ex_library_peak ex_selector 4 = [10, 10, 10]"
    by (simp_all add: cv_fold_scores_def cv_fold_def GaussianHMM_fit_def
        ex_library_peak_def ex_library_def ex_selector_def)
  have r: "min_n_components ex_selector = 2" "max_n_components ex_selector = 4"
    by (simp_all add: ex_selector_def)
  have obs: "cv_observed ex_library_peak ex_selector
       = [(2, 10), (2, 10), (2, 10), (3, - 100), (3, 100), (4, 10), (4, 10), (4, 10)]"
    by (simp add: cv_observed_def r upto.simps f)
  have "cv_search ex_library_peak ex_selector = Inr (Fin 100, 3)"
    unfolding cv_search_keep_better[OF k] obs r by (simp add: keep_better_apply)
  with obs show ?thesis by simp
qed

text \<open>
  C1. \<open>SelectorCV.select()\<close>, when the splitter is constructed: the search ends
  with the highest of all fold scores observed, over all folds of all candidates, and with
  the candidate of the first fold that reached it; with no observed score it ends in the
  initial state. The observed scores of a candidate are those of its folds before the first
  fold that raises. The returned model is \<open>base_model\<close> at the state count of the search.
\<close>

theorem SelectorCV_select_highest_fold_score:
  assumes "KFold L (random_state self) = Inr split_method"
  shows "\<exists>st. cv_search L self = Inr st
          \<and> SelectorCV_select L self = Inr (base_model L self (snd st))
          \<and> (cv_observed L self = [] \<longrightarrow> st = (NegInf, min_n_components self))
          \<and> (cv_observed L self \<noteq> [] \<longrightarrow>
               (\<exists>pre k post.
                  cv_observed L self = pre @ (k, Max (snd ` set (cv_observed L self))) # post
                  \<and> (\<forall>x\<in>set pre. snd x < Max (snd ` set (cv_observed L self)))
                  \<and> st = (Fin (Max (snd ` set (cv_observed L self))), k)))"
proof -
  let ?st = "foldl (keep_better (\<lambda>v m. m < v) fst (\<lambda>x. Some (Fin (snd x))))
               (NegInf, min_n_components self) (cv_observed L self)"
  have s: "cv_search L self = Inr ?st"
    by (rule cv_search_keep_better) (rule assms)
  then have sel: "SelectorCV_select L self = Inr (base_model L self (snd ?st))"
    by (simp add: SelectorCV_select_def split: prod.splits)
  from keep_highest_cases[of "cv_observed L self" "min_n_components self"]
  have c: "(cv_observed L self = [] \<longrightarrow> ?st = (NegInf, min_n_components self))
          \<and> (cv_observed L self \<noteq> [] \<longrightarrow>
               (\<exists>pre k post.
                  cv_observed L self = pre @ (k, Max (snd ` set (cv_observed L self))) # post
                  \<and> (\<forall>x\<in>set pre. snd x < Max (snd ` set (cv_observed L self)))
                  \<and> ?st = (Fin (Max (snd ` set (cv_observed L self))), k)))"
    by blast
  from s sel c show ?thesis by blast
qed

theorem SelectorCV_select_highest_fold_score_witness:
  "KFold ex_library (random_state ex_selector) = Inr ()
   \<and> cv_observed ex_library ex_selector
       = [(2, 2), (2, 10), (2, 4), (3, 3), (3, 15), (4, 4), (4, 20), (4, 8)]
   \<and> cv_search ex_library ex_selector = Inr (Fin 20, 4)
   \<and> SelectorCV_select ex_library ex_selector = Inr (Some \<lparr>n_components = 4, params = ()\<rparr>)
   \<and> cv_observed ex_library_peak ex_selector
       = [(2, 10), (2, 10), (2, 10), (3, - 100), (3, 100), (4, 10), (4, 10), (4, 10)]
   \<and> cv_search ex_library_peak ex_selector = Inr (Fin 100, 3)"
proof -
  have k: "KFold ex_library (random_state ex_selector) = Inr ()"
    by (simp add: ex_library_def)
  have f: "cv_fold_scores ex_library ex_selector 2 = [2, 10, 4]"
    "cv_fold_scores ex_library ex_selector 3 = [3, 15]"
    "cv_fold_scores ex_library ex_selector 4 = [4, 20, 8]"
    by (simp_all add: cv_fold_scores_def cv_fold_def GaussianHMM_fit_def
        ex_library_def ex_selector_def)
  have r: "min_n_components ex_selector = 2" "max_n_components ex_selector = 4"
    by (simp_all add: ex_selector_def)
  have obs: "cv_observed ex_library ex_selector
       = [(2, 2), (2, 10), (2, 4), (3, 3), (3, 15), (4, 4), (4, 20), (4, 8)]"
    by (simp add: cv_observed_def r upto.simps f)
  have m: "Max (snd ` set (cv_observed ex_library ex_selector)) = 20"
    by (simp add: obs)
  have b: "base_model ex_library ex_selector 4 = Some \<lparr>n_components = 4, params = ()\<rparr>"
    by (simp add: base_model_def GaussianHMM_fit_def ex_library_def ex_selector_def)
  from SelectorCV_select_highest_fold_score[OF k]
  obtain st pre kk post where st: "cv_search ex_library ex_selector = Inr st"
    "SelectorCV_select ex_library ex_selector = Inr (base_model ex_library ex_selector (snd st))"
    "cv_observed ex_library ex_selector = pre @ (kk, 20) # post"
    "\<forall>x\<in>set pre. snd x < 20" "st = (Fin 20, kk)"
    unfolding m by (auto simp: obs)
  from st(3,4) have "kk = 4"
    unfolding obs by (auto simp: Cons_eq_append_conv append_eq_Cons_conv)
  with st k obs b ex_peak show ?thesis by simp
qed

section \<open>recognize: scores and guesses\<close>

lemma not_NegInf_less: "(\<not> NegInf < v) = (v = NegInf)"
  by (cases v) simp_all

lemma update_fresh_key:
  "k \<notin> fst ` set al \<Longrightarrow> AList.update k v al = al @ [(k, v)]"
  by (induction al) auto

lemma foldl_update_fresh:
  "distinct (map fst es) \<Longrightarrow> fst ` set es \<inter> fst ` set d = {} \<Longrightarrow>
   foldl (\<lambda>d e. AList.update (fst e) (snd e) d) d es = d @ es"
proof (induction es arbitrary: d)
  case Nil
  then show ?case by simp
next
  case (Cons e es)
  from Cons.prems have f: "fst e \<notin> fst ` set d" by auto
  have u: "AList.update (fst e) (snd e) d = d @ [e]"
    using update_fresh_key[OF f] by simp
  from Cons.prems have "distinct (map fst es)" by simp
  moreover from Cons.prems have "fst ` set es \<inter> fst ` set (d @ [e]) = {}" by auto
  ultimately have "foldl (\<lambda>d e. AList.update (fst e) (snd e) d) (d @ [e]) es = (d @ [e]) @ es"
    by (rule Cons.IH)
  with u show ?case by simp
qed

lemma recognize_words_scores:
  assumes item: "get_item_Xlengths test_set i = Inr item"
      and look: "\<forall>e\<in>set ms. map_of models (fst e) = Some (snd e)"
  shows "recognize_words L models test_set i (map fst ms) (max_l, guess, d) =
     Inr (fst (foldl (keep_better (\<lambda>v m. m < v) (\<lambda>x. Some (fst x)) (\<lambda>x. Some (snd x)))
                 (max_l, guess) (item_scores L ms item)),
          snd (foldl (keep_better (\<lambda>v m. m < v) (\<lambda>x. Some (fst x)) (\<lambda>x. Some (snd x)))
                 (max_l, guess) (item_scores L ms item)),
          foldl (\<lambda>d e. AList.update (fst e) (snd e) d) d (item_scores L ms item))"
  using look
proof (induction ms arbitrary: max_l guess d)
  case Nil
  then show ?case by (simp add: item_scores_def)
next
  case (Cons e ms)
  obtain word model where e: "e = (word, model)" by (cases e) auto
  obtain x ls where it: "item = (x, ls)" by (cases item) auto
  from Cons.prems e have m: "map_of models word = Some model" by simp
  from Cons.prems have l: "\<forall>e\<in>set ms. map_of models (fst e) = Some (snd e)" by simp
  have sc: "item_scores L (e # ms) item = (word, try_score L model x ls) # item_scores L ms item"
    by (simp add: item_scores_def e it)
  show ?case
  proof (cases "max_l < try_score L model x ls")
    case True
    with m item it e sc Cons.IH[OF l] show ?thesis
      by (simp add: keep_better_apply Let_def)
  next
    case False
    with m item it e sc Cons.IH[OF l] show ?thesis
      by (simp add: keep_better_apply Let_def)
  qed
qed

lemma recognize_words_ok:
  assumes "get_item_Xlengths test_set i = Inr item"
      and "set ws \<subseteq> fst ` set models"
  shows "\<exists>r. recognize_words L models test_set i ws (max_l, guess, d) = Inr r"
  using assms(2)
proof (induction ws arbitrary: max_l guess d)
  case Nil
  then show ?case by simp
next
  case (Cons w ws)
  obtain x ls where it: "item = (x, ls)" by (cases item) auto
  from Cons.prems have "w \<in> fst ` set models" by simp
  then obtain model where m: "map_of models w = Some model"
    by (cases "map_of models w") (auto simp: map_of_eq_None_iff)
  from Cons.prems have "set ws \<subseteq> fst ` set models" by simp
  then have ih: "\<And>max_l guess d. \<exists>r. recognize_words L models test_set i ws (max_l, guess, d) = Inr r"
    by (rule Cons.IH)
  show ?case
    using m assms(1) it ih by (simp add: Let_def)
qed

lemma recognize_words_raises:
  assumes "get_item_Xlengths test_set i = Inl e"
      and "w \<in> fst ` set models"
  shows "recognize_words L models test_set i (w # ws) st = Inl e"
proof -
  obtain max_l guess d where st: "st = (max_l, guess, d)" by (cases st) auto
  from assms(2) obtain model where m: "map_of models w = Some model"
    by (cases "map_of models w") (auto simp: map_of_eq_None_iff)
  show ?thesis using m assms(1) st by simp
qed


lemma map_fst_item_scores: "map fst (item_scores L ms item) = map fst ms"
  by (induction ms) (auto simp: item_scores_def)

lemma recognize_words_item:
  assumes d: "distinct (map fst models)"
      and item: "get_item_Xlengths test_set i = Inr item"
  shows "recognize_words L models test_set i (map fst models) (NegInf, None, []) =
     Inr (fst (foldl (keep_better (\<lambda>v m. m < v) (\<lambda>x. Some (fst x)) (\<lambda>x. Some (snd x)))
                 (NegInf, None) (item_scores L models item)),
          snd (foldl (keep_better (\<lambda>v m. m < v) (\<lambda>x. Some (fst x)) (\<lambda>x. Some (snd x)))
                 (NegInf, None) (item_scores L models item)),
          item_scores L models item)"
proof -
  have look: "\<forall>e\<in>set models. map_of models (fst e) = Some (snd e)"
    using d by (auto intro: map_of_is_SomeI)
  have "distinct (map fst (item_scores L models item))"
    using d by (simp add: map_fst_item_scores)
  then have "foldl (\<lambda>d e. AList.update (fst e) (snd e) d) [] (item_scores L models item)
               = [] @ item_scores L models item"
    by (rule foldl_update_fresh) simp
  with recognize_words_scores[OF item look, of L NegInf None "[]"]
  show ?thesis by simp
qed

lemma arg_max_first_split:
  "\<forall>y\<in>set pre. snd y < snd x \<Longrightarrow> \<forall>y\<in>set post. snd y \<le> snd x \<Longrightarrow>
   arg_max_first (pre @ x # post) = Some (fst x)"
proof (induction pre)
  case Nil
  then show ?case by (cases x) simp
next
  case (Cons y pre)
  obtain w v where y: "y = (w, v)" by (cases y) auto
  from Cons.prems y have lt: "v < snd x" by simp
  have n: "\<not> (\<forall>z\<in>set (pre @ x # post). snd z \<le> v)"
  proof
    assume "\<forall>z\<in>set (pre @ x # post). snd z \<le> v"
    then have "snd x \<le> v" by simp
    with lt show False by simp
  qed
  from Cons.prems have "arg_max_first (pre @ x # post) = Some (fst x)"
    by (intro Cons.IH) simp_all
  moreover have "arg_max_first ((w, v) # (pre @ x # post)) = arg_max_first (pre @ x # post)"
    using n by (simp only: arg_max_first.simps if_False)
  ultimately show ?case by (simp only: y append_Cons)
qed

lemma guess_cases:
  fixes S :: "('k \<times> xreal) list"
  shows "snd (foldl (keep_better (\<lambda>v m. m < v) (\<lambda>x. Some (fst x)) (\<lambda>x. Some (snd x)))
                (NegInf, None) S)
         = (if \<exists>x\<in>set S. NegInf < snd x then arg_max_first S else None)"
proof -
  let ?F = "foldl (keep_better (\<lambda>v m. m < v) (\<lambda>x. Some (fst x)) (\<lambda>x. Some (snd x))) (NegInf, None) S"
  have fk: "(?F = (NegInf, None)
            \<and> (\<forall>x\<in>set S. \<forall>v. Some (snd x) = Some v \<longrightarrow> \<not> NegInf < v))
       \<or> (\<exists>pre x v post. S = pre @ x # post \<and> Some (snd x) = Some v
            \<and> ?F = (v, Some (fst x))
            \<and> NegInf < v
            \<and> (\<forall>y\<in>set pre. \<forall>w. Some (snd y) = Some w \<longrightarrow> w < v)
            \<and> (\<forall>y\<in>set post. \<forall>w. Some (snd y) = Some w \<longrightarrow> \<not> v < w))"
    by (rule foldl_keep_better) auto
  then show ?thesis
  proof (elim disjE conjE exE)
    assume F: "?F = (NegInf, None)"
      and n: "\<forall>x\<in>set S. \<forall>v. Some (snd x) = Some v \<longrightarrow> \<not> NegInf < v"
    from n have "\<not> (\<exists>x\<in>set S. NegInf < snd x)" by simp
    with F show ?thesis by simp
  next
    fix pre x v post
    assume d: "S = pre @ x # post" and v: "Some (snd x) = Some v"
      and F: "?F = (v, Some (fst x))" and pos: "NegInf < v"
      and p: "\<forall>y\<in>set pre. \<forall>w. Some (snd y) = Some w \<longrightarrow> w < v"
      and q: "\<forall>y\<in>set post. \<forall>w. Some (snd y) = Some w \<longrightarrow> \<not> v < w"
    from v have v': "v = snd x" by simp
    from p v' have p': "\<forall>y\<in>set pre. snd y < snd x" by simp
    from q v' have q': "\<forall>y\<in>set post. snd y \<le> snd x" by (simp add: not_less)
    have a: "arg_max_first S = Some (fst x)"
      unfolding d by (rule arg_max_first_split[OF p' q'])
    have "\<exists>x\<in>set S. NegInf < snd x" using d pos v' by auto
    with a F show ?thesis by simp
  qed
qed

lemma recognize_items_result:
  assumes "recognize_items L models test_set items (P, G) = Inr (P', G')"
  shows "\<exists>rs. list_all2 (\<lambda>i r. recognize_words L models test_set i (map fst models)
                                (NegInf, None, []) = Inr r) items rs
              \<and> P' = P @ map (\<lambda>r. snd (snd r)) rs \<and> G' = G @ map (\<lambda>r. fst (snd r)) rs"
  using assms
proof (induction items arbitrary: P G)
  case Nil
  then show ?case by simp
next
  case (Cons i items)
  from Cons.prems obtain max_l guess d where
    r: "recognize_words L models test_set i (map fst models) (NegInf, None, []) = Inr (max_l, guess, d)"
    by (cases "recognize_words L models test_set i (map fst models) (NegInf, None, [])") auto
  with Cons.prems have "recognize_items L models test_set items (P @ [d], G @ [guess]) = Inr (P', G')"
    by simp
  from Cons.IH[OF this] obtain rs where
    rs: "list_all2 (\<lambda>i r. recognize_words L models test_set i (map fst models)
                                (NegInf, None, []) = Inr r) items rs"
      "P' = (P @ [d]) @ map (\<lambda>r. snd (snd r)) rs" "G' = (G @ [guess]) @ map (\<lambda>r. fst (snd r)) rs"
    by blast
  have "list_all2 (\<lambda>i r. recognize_words L models test_set i (map fst models)
                                (NegInf, None, []) = Inr r) (i # items) ((max_l, guess, d) # rs)"
    using r rs(1) by simp
  moreover have "P' = P @ map (\<lambda>r. snd (snd r)) ((max_l, guess, d) # rs)" using rs(2) by simp
  moreover have "G' = G @ map (\<lambda>r. fst (snd r)) ((max_l, guess, d) # rs)" using rs(3) by simp
  ultimately show ?case by blast
qed

lemma recognize_items_ok:
  assumes "\<forall>i\<in>set items. \<exists>r. recognize_words L models test_set i (map fst models)
                                (NegInf, None, []) = Inr r"
  shows "\<exists>r. recognize_items L models test_set items (P, G) = Inr r"
  using assms
proof (induction items arbitrary: P G)
  case Nil
  then show ?case by simp
next
  case (Cons i items)
  from Cons.prems obtain max_l guess d where
    r: "recognize_words L models test_set i (map fst models) (NegInf, None, []) = Inr (max_l, guess, d)"
    by (metis list.set_intros(1) prod_cases3)
  from Cons.prems have "\<forall>i\<in>set items. \<exists>r. recognize_words L models test_set i (map fst models)
                                (NegInf, None, []) = Inr r" by simp
  from Cons.IH[OF this] r show ?case by simp
qed

lemma recognize_entry:
  assumes d: "distinct (map fst models)"
      and r: "recognize L models test_set = Inr (probs, guesses)"
      and i: "i < num_items test_set"
  shows "length probs = num_items test_set \<and> length guesses = num_items test_set
     \<and> ((models = [] \<and> probs ! i = [] \<and> guesses ! i = None)
        \<or> (\<exists>item. get_item_Xlengths test_set i = Inr item
              \<and> probs ! i = item_scores L models item
              \<and> guesses ! i =
                  snd (foldl (keep_better (\<lambda>v m. m < v) (\<lambda>x. Some (fst x)) (\<lambda>x. Some (snd x)))
                         (NegInf, None) (item_scores L models item))))"
proof -
  let ?n = "num_items test_set"
  from r have "recognize_items L models test_set [0 ..< ?n] ([], []) = Inr (probs, guesses)"
    by (simp add: recognize_def)
  from recognize_items_result[OF this] obtain rs where
    la: "list_all2 (\<lambda>i r. recognize_words L models test_set i (map fst models)
                                (NegInf, None, []) = Inr r) [0 ..< ?n] rs"
    and p: "probs = map (\<lambda>r. snd (snd r)) rs" and g: "guesses = map (\<lambda>r. fst (snd r)) rs"
    by auto
  from la have len: "length rs = ?n" by (auto dest: list_all2_lengthD)
  from la i have ri: "recognize_words L models test_set i (map fst models) (NegInf, None, [])
                       = Inr (rs ! i)"
    by (auto simp: list_all2_conv_all_nth)
  have pi: "probs ! i = snd (snd (rs ! i))" and gi: "guesses ! i = fst (snd (rs ! i))"
    using p g len i by simp_all
  have "(models = [] \<and> probs ! i = [] \<and> guesses ! i = None)
        \<or> (\<exists>item. get_item_Xlengths test_set i = Inr item
              \<and> probs ! i = item_scores L models item
              \<and> guesses ! i =
                  snd (foldl (keep_better (\<lambda>v m. m < v) (\<lambda>x. Some (fst x)) (\<lambda>x. Some (snd x)))
                         (NegInf, None) (item_scores L models item)))"
  proof (cases "get_item_Xlengths test_set i")
    case (Inr item)
    from recognize_words_item[OF d Inr, of L] ri pi gi Inr show ?thesis by simp
  next
    case (Inl e)
    show ?thesis
    proof (cases models)
      case Nil
      with ri have "rs ! i = (NegInf, None, [])" by simp
      with pi gi Nil show ?thesis by simp
    next
      case (Cons m ms)
      then have fm: "fst m \<in> fst ` set models" and ks: "map fst models = fst m # map fst ms"
        by simp_all
      have "recognize_words L models test_set i (fst m # map fst ms) (NegInf, None, []) = Inl e"
        by (rule recognize_words_raises[OF Inl fm])
      then have "recognize_words L models test_set i (map fst models) (NegInf, None, []) = Inl e"
        by (simp only: ks)
      with ri have False by (simp only: sum.distinct)
      then show ?thesis ..
    qed
  qed
  with len p g show ?thesis by simp
qed

lemma ex_recognize:
  "recognize ex_library ex_models ex_test_set =
     Inr ([[(''A'', Fin 2), (''B'', Fin 3), (''C'', NegInf), (''D'', Fin 3)],
           [(''A'', NegInf), (''B'', NegInf), (''C'', NegInf), (''D'', NegInf)]],
          [Some ''B'', None])"
  by (simp add: recognize_def ex_models_def ex_test_set_def ex_library_def
      try_score_def model_score_def upt_rec Let_def)

lemma recognize_lengths:
  assumes "recognize L models test_set = Inr (probs, guesses)"
  shows "length probs = num_items test_set \<and> length guesses = num_items test_set"
proof -
  from assms have "recognize_items L models test_set [0 ..< num_items test_set] ([], [])
      = Inr (probs, guesses)"
    by (simp add: recognize_def)
  from recognize_items_result[OF this] obtain rs where
    la: "list_all2 (\<lambda>i r. recognize_words L models test_set i (map fst models)
                                (NegInf, None, []) = Inr r) [0 ..< num_items test_set] rs"
    and p: "probs = map (\<lambda>r. snd (snd r)) rs" and g: "guesses = map (\<lambda>r. fst (snd r)) rs"
    by auto
  from la have "length rs = num_items test_set" by (auto dest: list_all2_lengthD)
  with p g show ?thesis by simp
qed

text \<open>
  C9. When \<open>recognize\<close> returns, both lists have one element per test item, and the
  element at index \<open>i\<close> belongs to item \<open>i\<close>: the dictionary \<open>probabilities[i]\<close> has
  exactly the keys of \<open>models\<close>, in their order, and its entries are the scores of item
  \<open>i\<close>.
\<close>

theorem recognize_alignment:
  assumes "distinct (map fst models)"
      and "recognize L models test_set = Inr (probabilities, guesses)"
  shows "length probabilities = num_items test_set \<and> length guesses = num_items test_set
     \<and> (\<forall>i<num_items test_set.
           map fst (probabilities ! i) = map fst models
           \<and> (\<forall>item. get_item_Xlengths test_set i = Inr item \<longrightarrow>
                 probabilities ! i = item_scores L models item))"
proof (intro conjI allI impI)
  show "length probabilities = num_items test_set" "length guesses = num_items test_set"
    using recognize_lengths[OF assms(2)] by simp_all
next
  fix i assume i: "i < num_items test_set"
  from recognize_entry[OF assms i] show "map fst (probabilities ! i) = map fst models"
    by (auto simp: map_fst_item_scores)
next
  fix i item assume i: "i < num_items test_set"
    and it: "get_item_Xlengths test_set i = Inr item"
  from recognize_entry[OF assms i] it show "probabilities ! i = item_scores L models item"
    by (auto simp: item_scores_def)
qed

theorem recognize_alignment_witness:
  "distinct (map fst ex_models)
   \<and> recognize ex_library ex_models ex_test_set =
       Inr ([[(''A'', Fin 2), (''B'', Fin 3), (''C'', NegInf), (''D'', Fin 3)],
             [(''A'', NegInf), (''B'', NegInf), (''C'', NegInf), (''D'', NegInf)]],
            [Some ''B'', None])
   \<and> num_items ex_test_set = 2
   \<and> map fst [(''A'', Fin 2), (''B'', Fin 3), (''C'', NegInf), (''D'', Fin 3)] = map fst ex_models
   \<and> item_scores ex_library ex_models ([[1]], [1])
       = [(''A'', Fin 2), (''B'', Fin 3), (''C'', NegInf), (''D'', Fin 3)]"
proof -
  have d: "distinct (map fst ex_models)" by (simp add: ex_models_def)
  have n: "num_items ex_test_set = 2" by (simp add: ex_test_set_def)
  have g: "get_item_Xlengths ex_test_set 0 = Inr ([[1]], [1])" by (simp add: ex_test_set_def)
  have sc: "item_scores ex_library ex_models ([[1]], [1])
       = [(''A'', Fin 2), (''B'', Fin 3), (''C'', NegInf), (''D'', Fin 3)]"
    by (simp add: item_scores_def ex_models_def try_score_def model_score_def ex_library_def)
  have k: "map fst [(''A'', Fin 2), (''B'', Fin 3), (''C'', NegInf), (''D'', Fin 3)]
             = map fst ex_models"
    by (simp add: ex_models_def)
  from recognize_alignment[OF d ex_recognize] have "length [Some ''B'', None] = num_items ex_test_set"
    by (elim conjE)
  with d ex_recognize sc k show ?thesis by simp
qed

text \<open>
  C6. For every test item of a returned result, the recorded entries are the scores of
  the item under the models of the collection, with negative infinity where scoring raises;
  the guess is the arg-max label of these entries, the first one among equals, when some
  entry is above negative infinity, and \<open>None\<close> otherwise.
\<close>

theorem recognize_guess_arg_max:
  assumes "distinct (map fst models)"
      and "recognize L models test_set = Inr (probabilities, guesses)"
      and "i < num_items test_set"
  shows "(\<forall>item. get_item_Xlengths test_set i = Inr item \<longrightarrow>
            probabilities ! i = item_scores L models item)
     \<and> guesses ! i = (if \<exists>x\<in>set (probabilities ! i). NegInf < snd x
                      then arg_max_first (probabilities ! i) else None)"
proof -
  from recognize_entry[OF assms]
  have "(models = [] \<and> probabilities ! i = [] \<and> guesses ! i = None)
        \<or> (\<exists>item. get_item_Xlengths test_set i = Inr item
              \<and> probabilities ! i = item_scores L models item
              \<and> guesses ! i =
                  snd (foldl (keep_better (\<lambda>v m. m < v) (\<lambda>x. Some (fst x)) (\<lambda>x. Some (snd x)))
                         (NegInf, None) (item_scores L models item)))"
    by (elim conjE)
  then show ?thesis
  proof (elim disjE exE conjE)
    assume "models = []" "probabilities ! i = []" "guesses ! i = None"
    then show ?thesis by (simp add: item_scores_def)
  next
    fix item
    assume I: "get_item_Xlengths test_set i = Inr item"
        "probabilities ! i = item_scores L models item"
        "guesses ! i = snd (foldl (keep_better (\<lambda>v m. m < v) (\<lambda>x. Some (fst x)) (\<lambda>x. Some (snd x)))
                         (NegInf, None) (item_scores L models item))"
    from I(3) have "guesses ! i = (if \<exists>x\<in>set (probabilities ! i). NegInf < snd x
                      then arg_max_first (probabilities ! i) else None)"
      unfolding I(2) by (simp only: guess_cases)
    with I(1,2) show ?thesis by simp
  qed
qed

theorem recognize_guess_arg_max_witness:
  "distinct (map fst ex_models) \<and> 0 < num_items ex_test_set
   \<and> recognize ex_library ex_models ex_test_set =
       Inr ([[(''A'', Fin 2), (''B'', Fin 3), (''C'', NegInf), (''D'', Fin 3)],
             [(''A'', NegInf), (''B'', NegInf), (''C'', NegInf), (''D'', NegInf)]],
            [Some ''B'', None])
   \<and> arg_max_first [(''A'', Fin 2), (''B'', Fin 3), (''C'', NegInf), (''D'', Fin 3)] = Some ''B''"
proof -
  have d: "distinct (map fst ex_models)" by (simp add: ex_models_def)
  have n: "0 < num_items ex_test_set" by (simp add: ex_test_set_def)
  from recognize_guess_arg_max[OF d ex_recognize n] d n ex_recognize show ?thesis
    by simp
qed

theorem recognize_guess_arg_max_counterexample:
  "recognize ex_library ex_models_absent ex_test_one = Inr ([[(''A'', NegInf)]], [None])
   \<and> arg_max_first [(''A'', NegInf)] = Some ''A''"
  by (simp add: recognize_def ex_models_absent_def ex_test_one_def
      try_score_def model_score_def Let_def)

text \<open>
  C7. When scoring raises for every label of the collection on a test item, every entry
  recorded for the item is negative infinity and the guess for the item is \<open>None\<close>.
\<close>

theorem recognize_all_fail_guess_None:
  assumes "distinct (map fst models)"
      and "recognize L models test_set = Inr (probabilities, guesses)"
      and "i < num_items test_set"
      and "get_item_Xlengths test_set i = Inr (x, ls)"
      and "\<forall>e\<in>set models. \<exists>err. model_score L (snd e) x ls = Inl err"
  shows "guesses ! i = None \<and> (\<forall>e\<in>set (probabilities ! i). snd e = NegInf)
     \<and> map fst (probabilities ! i) = map fst models"
proof -
  from recognize_entry[OF assms(1,2,3)] assms(4)
  have p: "probabilities ! i = item_scores L models (x, ls)"
    and g: "guesses ! i = snd (foldl (keep_better (\<lambda>v m. m < v) (\<lambda>x. Some (fst x)) (\<lambda>x. Some (snd x)))
                         (NegInf, None) (probabilities ! i))"
    by (auto simp: item_scores_def)
  have a: "\<forall>e\<in>set (probabilities ! i). snd e = NegInf"
    unfolding p using assms(5) by (auto simp: item_scores_def try_score_def)
  then have "\<not> (\<exists>e\<in>set (probabilities ! i). NegInf < snd e)" by simp
  with g have "guesses ! i = None" by (simp only: guess_cases if_False)
  with a p show ?thesis by (simp add: map_fst_item_scores)
qed

theorem recognize_all_fail_guess_None_witness:
  "distinct (map fst ex_models) \<and> 1 < num_items ex_test_set
   \<and> get_item_Xlengths ex_test_set 1 = Inr ([], [])
   \<and> model_score ex_library (Some \<lparr>n_components = 2, params = ()\<rparr>) [] [] = Inl LibraryError
   \<and> model_score ex_library (Some \<lparr>n_components = 3, params = ()\<rparr>) [] [] = Inl LibraryError
   \<and> model_score ex_library None [] [] = Inl AttributeError
   \<and> recognize ex_library ex_models ex_test_set =
       Inr ([[(''A'', Fin 2), (''B'', Fin 3), (''C'', NegInf), (''D'', Fin 3)],
             [(''A'', NegInf), (''B'', NegInf), (''C'', NegInf), (''D'', NegInf)]],
            [Some ''B'', None])"
proof -
  have d: "distinct (map fst ex_models)" by (simp add: ex_models_def)
  have n: "1 < num_items ex_test_set" by (simp add: ex_test_set_def)
  have g: "get_item_Xlengths ex_test_set 1 = Inr ([], [])" by (simp add: ex_test_set_def)
  have f: "\<forall>e\<in>set ex_models. \<exists>err. model_score ex_library (snd e) [] [] = Inl err"
    by (simp add: ex_models_def model_score_def ex_library_def)
  have m: "model_score ex_library (Some \<lparr>n_components = 2, params = ()\<rparr>) [] [] = Inl LibraryError"
    "model_score ex_library (Some \<lparr>n_components = 3, params = ()\<rparr>) [] [] = Inl LibraryError"
    "model_score ex_library None [] [] = Inl AttributeError"
    by (simp_all add: model_score_def ex_library_def)
  from recognize_all_fail_guess_None[OF d ex_recognize n g f] d n g m ex_recognize
  show ?thesis by simp
qed

section \<open>The state count of the returned model\<close>

lemma base_model_n_components:
  "base_model L self n = Some m \<Longrightarrow> n_components m = n"
  by (auto simp: base_model_def GaussianHMM_fit_def split: sum.splits)

lemma bic_search_in_range:
  assumes "min_n_components self \<le> max_n_components self"
  shows "min_n_components self \<le> snd (bic_search L self)
       \<and> snd (bic_search L self) \<le> max_n_components self"
  using bic_search_cases[of L self] assms by auto

lemma dic_search_in_range:
  assumes "min_n_components self \<le> max_n_components self"
  shows "min_n_components self \<le> snd (dic_search L self)
       \<and> snd (dic_search L self) \<le> max_n_components self"
  using dic_search_cases[of L self] assms by auto

lemma cv_loop_raises:
  assumes "KFold L (random_state self) = Inl e"
  shows "cv_loop L self (i # cands) st = Inl e"
  using assms by simp

lemma cv_observed_in_range:
  "(k, v) \<in> set (cv_observed L self) \<Longrightarrow>
     min_n_components self \<le> k \<and> k \<le> max_n_components self"
  by (auto simp: cv_observed_def)

lemma cv_search_in_range:
  assumes r: "min_n_components self \<le> max_n_components self"
      and s: "cv_search L self = Inr st"
  shows "min_n_components self \<le> snd st \<and> snd st \<le> max_n_components self"
proof -
  have ne: "[min_n_components self .. max_n_components self]
      = min_n_components self # [min_n_components self + 1 .. max_n_components self]"
    using r by (simp add: upto.simps)
  obtain sp where k: "KFold L (random_state self) = Inr sp"
  proof (cases "KFold L (random_state self)")
    case (Inl e)
    with s ne have False by (simp add: cv_search_def)
    then show ?thesis ..
  next
    case (Inr sp)
    then show ?thesis by (rule that)
  qed
  let ?st = "foldl (keep_better (\<lambda>v m. m < v) fst (\<lambda>x. Some (Fin (snd x))))
               (NegInf, min_n_components self) (cv_observed L self)"
  from cv_search_keep_better[OF k] s have st: "st = ?st" by simp
  from keep_highest_cases[of "cv_observed L self" "min_n_components self"]
  have "snd ?st = min_n_components self \<or> (\<exists>v. (snd ?st, v) \<in> set (cv_observed L self))"
  proof (elim disjE conjE exE)
    assume "?st = (NegInf, min_n_components self)"
    then show ?thesis by simp
  next
    fix pre k post
    assume d: "cv_observed L self = pre @ (k, Max (snd ` set (cv_observed L self))) # post"
      and f: "?st = (Fin (Max (snd ` set (cv_observed L self))), k)"
    from d have "(k, Max (snd ` set (cv_observed L self))) \<in> set (cv_observed L self)"
      by (simp only: in_set_conv_decomp) blast
    with f show ?thesis by auto
  qed
  then show ?thesis
    unfolding st using r cv_observed_in_range by auto
qed

text \<open>
  C8. With \<open>min_n_components \<le> max_n_components\<close>, the state count that
  \<open>SelectorBIC\<close>, \<open>SelectorDIC\<close> and \<open>SelectorCV\<close> pass to the final fit lies in the
  range, and a model that \<open>select\<close> returns has that state count.
\<close>

theorem select_state_count_in_range:
  assumes "min_n_components self \<le> max_n_components self"
  shows "(\<exists>r. SelectorBIC_select L self = Inr r
            \<and> (\<forall>m. r = Some m \<longrightarrow>
                  min_n_components self \<le> n_components m \<and> n_components m \<le> max_n_components self))
     \<and> (\<exists>r. SelectorDIC_select L self = Inr r
            \<and> (\<forall>m. r = Some m \<longrightarrow>
                  min_n_components self \<le> n_components m \<and> n_components m \<le> max_n_components self))
     \<and> (\<forall>r m. SelectorCV_select L self = Inr r \<and> r = Some m \<longrightarrow>
            min_n_components self \<le> n_components m \<and> n_components m \<le> max_n_components self)"
proof -
  have "SelectorBIC_select L self = Inr (base_model L self (snd (bic_search L self)))"
    by (simp add: SelectorBIC_select_def split: prod.splits)
  moreover have "\<forall>m. base_model L self (snd (bic_search L self)) = Some m \<longrightarrow>
      min_n_components self \<le> n_components m \<and> n_components m \<le> max_n_components self"
    using bic_search_in_range[OF assms, of L] by (auto dest: base_model_n_components)
  ultimately have bic: "\<exists>r. SelectorBIC_select L self = Inr r
            \<and> (\<forall>m. r = Some m \<longrightarrow>
                  min_n_components self \<le> n_components m \<and> n_components m \<le> max_n_components self)"
    by blast
  have "SelectorDIC_select L self = Inr (base_model L self (snd (dic_search L self)))"
    by (simp add: SelectorDIC_select_def split: prod.splits)
  moreover have "\<forall>m. base_model L self (snd (dic_search L self)) = Some m \<longrightarrow>
      min_n_components self \<le> n_components m \<and> n_components m \<le> max_n_components self"
    using dic_search_in_range[OF assms, of L] by (auto dest: base_model_n_components)
  ultimately have dic: "\<exists>r. SelectorDIC_select L self = Inr r
            \<and> (\<forall>m. r = Some m \<longrightarrow>
                  min_n_components self \<le> n_components m \<and> n_components m \<le> max_n_components self)"
    by blast
  have cv: "\<forall>r m. SelectorCV_select L self = Inr r \<and> r = Some m \<longrightarrow>
            min_n_components self \<le> n_components m \<and> n_components m \<le> max_n_components self"
  proof (intro allI impI)
    fix r m assume a: "SelectorCV_select L self = Inr r \<and> r = Some m"
    then obtain st where st: "cv_search L self = Inr st"
      and b: "base_model L self (snd st) = Some m"
      by (auto simp: SelectorCV_select_def split: sum.splits prod.splits)
    from cv_search_in_range[OF assms st] base_model_n_components[OF b]
    show "min_n_components self \<le> n_components m \<and> n_components m \<le> max_n_components self"
      by simp
  qed
  from bic dic cv show ?thesis by (intro conjI)
qed

lemma ex_base_model_4:
  "base_model ex_library ex_selector 4 = Some \<lparr>n_components = 4, params = ()\<rparr>"
  by (simp add: base_model_def GaussianHMM_fit_def ex_library_def ex_selector_def)

lemma ex_dic_select:
  "SelectorDIC_select ex_library ex_selector = Inr (Some \<lparr>n_components = 4, params = ()\<rparr>)"
proof -
  have r: "min_n_components ex_selector = 2" "max_n_components ex_selector = 4"
    by (simp_all add: ex_selector_def)
  have "dic_search ex_library ex_selector = (Fin 8, 4)"
    by (simp add: dic_search_def r upto.simps dic_step_def ex_dic_two_words)
  then show ?thesis by (simp add: SelectorDIC_select_def ex_base_model_4)
qed

lemma ex_cv_select:
  "SelectorCV_select ex_library ex_selector = Inr (Some \<lparr>n_components = 4, params = ()\<rparr>)"
proof -
  have k: "KFold ex_library (random_state ex_selector) = Inr ()"
    by (simp add: ex_library_def)
  have f: "cv_fold_scores ex_library ex_selector 2 = [2, 10, 4]"
    "cv_fold_scores ex_library ex_selector 3 = [3, 15]"
    "cv_fold_scores ex_library ex_selector 4 = [4, 20, 8]"
    by (simp_all add: cv_fold_scores_def cv_fold_def GaussianHMM_fit_def
        ex_library_def ex_selector_def)
  have r: "min_n_components ex_selector = 2" "max_n_components ex_selector = 4"
    by (simp_all add: ex_selector_def)
  have obs: "cv_observed ex_library ex_selector
       = [(2, 2), (2, 10), (2, 4), (3, 3), (3, 15), (4, 4), (4, 20), (4, 8)]"
    by (simp add: cv_observed_def r upto.simps f)
  have "cv_search ex_library ex_selector = Inr (Fin 20, 4)"
    unfolding cv_search_keep_better[OF k] obs r by (simp add: keep_better_apply)
  then show ?thesis by (simp add: SelectorCV_select_def ex_base_model_4)
qed

theorem select_state_count_in_range_witness:
  "min_n_components ex_selector \<le> max_n_components ex_selector
   \<and> SelectorDIC_select ex_library ex_selector = Inr (Some \<lparr>n_components = 4, params = ()\<rparr>)
   \<and> SelectorCV_select ex_library ex_selector = Inr (Some \<lparr>n_components = 4, params = ()\<rparr>)
   \<and> min_n_components ex_selector \<le> 4 \<and> 4 \<le> max_n_components ex_selector"
proof -
  have r: "min_n_components ex_selector \<le> max_n_components ex_selector"
    by (simp add: ex_selector_def)
  from select_state_count_in_range[OF r, of ex_library] ex_dic_select ex_cv_select r
  show ?thesis by auto
qed

section \<open>Where exceptions leave select and recognize\<close>

lemma cv_select_returns:
  assumes "(\<exists>sp. KFold L (random_state self) = Inr sp)
           \<or> max_n_components self < min_n_components self"
  shows "\<exists>r. SelectorCV_select L self = Inr r"
  using assms
proof
  assume "\<exists>sp. KFold L (random_state self) = Inr sp"
  then obtain sp where "KFold L (random_state self) = Inr sp" ..
  from cv_search_keep_better[OF this] show ?thesis
    by (simp add: SelectorCV_select_def split: prod.splits)
next
  assume "max_n_components self < min_n_components self"
  then have "[min_n_components self .. max_n_components self] = []" by simp
  then have "cv_search L self = Inr (NegInf, min_n_components self)"
    by (simp add: cv_search_def)
  then show ?thesis by (simp add: SelectorCV_select_def)
qed

lemma cv_select_raises:
  assumes "KFold L (random_state self) = Inl e"
      and "min_n_components self \<le> max_n_components self"
  shows "SelectorCV_select L self = Inl e"
proof -
  have "[min_n_components self .. max_n_components self]
      = min_n_components self # [min_n_components self + 1 .. max_n_components self]"
    using assms(2) by (simp add: upto.simps)
  then have "cv_search L self = Inl e"
    using cv_loop_raises[OF assms(1)] by (simp only: cv_search_def)
  then show ?thesis by (simp add: SelectorCV_select_def)
qed

lemma recognize_returns:
  assumes "(\<forall>i<num_items test_set. \<exists>item. get_item_Xlengths test_set i = Inr item)
           \<or> models = []"
  shows "\<exists>r. recognize L models test_set = Inr r"
proof -
  have "\<forall>i\<in>set [0 ..< num_items test_set].
          \<exists>r. recognize_words L models test_set i (map fst models) (NegInf, None, []) = Inr r"
  proof
    fix i assume i: "i \<in> set [0 ..< num_items test_set]"
    from assms show "\<exists>r. recognize_words L models test_set i (map fst models)
                            (NegInf, None, []) = Inr r"
    proof
      assume "\<forall>i<num_items test_set. \<exists>item. get_item_Xlengths test_set i = Inr item"
      with i obtain item where "get_item_Xlengths test_set i = Inr item" by auto
      then show ?thesis by (rule recognize_words_ok) simp
    next
      assume "models = []"
      then show ?thesis by simp
    qed
  qed
  then show ?thesis
    unfolding recognize_def by (rule recognize_items_ok)
qed

lemma recognize_raises:
  assumes m: "models \<noteq> []" and i: "i < num_items test_set"
      and e: "get_item_Xlengths test_set i = Inl e"
  shows "\<exists>e'. recognize L models test_set = Inl e'"
proof (cases "recognize L models test_set")
  case (Inl e')
  then show ?thesis by blast
next
  case (Inr r)
  obtain probs guesses where r: "r = (probs, guesses)" by (cases r) auto
  from Inr r have "recognize_items L models test_set [0 ..< num_items test_set] ([], [])
      = Inr (probs, guesses)"
    by (simp add: recognize_def)
  from recognize_items_result[OF this] obtain rs where
    la: "list_all2 (\<lambda>i r. recognize_words L models test_set i (map fst models)
                                (NegInf, None, []) = Inr r) [0 ..< num_items test_set] rs"
    by auto
  from la i have ri: "recognize_words L models test_set i (map fst models) (NegInf, None, [])
                       = Inr (rs ! i)"
    by (auto simp: list_all2_conv_all_nth)
  from m obtain a ms where c: "models = a # ms" by (cases models) auto
  then have fm: "fst a \<in> fst ` set models" and ks: "map fst models = fst a # map fst ms"
    by simp_all
  have "recognize_words L models test_set i (fst a # map fst ms) (NegInf, None, []) = Inl e"
    by (rule recognize_words_raises[OF e fm])
  then have "recognize_words L models test_set i (map fst models) (NegInf, None, []) = Inl e"
    by (simp only: ks)
  with ri have False by (simp only: sum.distinct)
  then show ?thesis ..
qed

text \<open>
  C2. \<open>select()\<close> of \<open>SelectorConstant\<close>, \<open>SelectorBIC\<close> and \<open>SelectorDIC\<close>
  returns for every library, whatever its fits and scores raise.
  \<open>SelectorCV.select()\<close> returns when the splitter is constructed or the range is
  empty, whatever \<open>split\<close>, \<open>combine_sequences\<close>, the fits and the scores raise; an
  exception of the splitter's constructor, which is called before the \<open>try\<close>, leaves
  \<open>select()\<close> when the range has a candidate. \<open>recognize()\<close> returns when every item
  access returns or the collection is empty, whatever the scores raise; with a model in the
  collection, an item access that raises makes \<open>recognize()\<close> raise.
\<close>

theorem select_and_recognize_raise_only_outside_try:
  "(\<exists>r. SelectorConstant_select L self = Inr r)
   \<and> (\<exists>r. SelectorBIC_select L self = Inr r)
   \<and> (\<exists>r. SelectorDIC_select L self = Inr r)
   \<and> ((\<exists>sp. KFold L (random_state self) = Inr sp)
          \<or> max_n_components self < min_n_components self
        \<longrightarrow> (\<exists>r. SelectorCV_select L self = Inr r))
   \<and> (KFold L (random_state self) = Inl e
          \<and> min_n_components self \<le> max_n_components self
        \<longrightarrow> SelectorCV_select L self = Inl e)
   \<and> ((\<forall>i<num_items test_set. \<exists>item. get_item_Xlengths test_set i = Inr item)
          \<or> models = []
        \<longrightarrow> (\<exists>r. recognize L models test_set = Inr r))
   \<and> (models \<noteq> [] \<and> i < num_items test_set \<and> get_item_Xlengths test_set i = Inl e'
        \<longrightarrow> (\<exists>e''. recognize L models test_set = Inl e''))"
proof (intro conjI impI)
  show "\<exists>r. SelectorConstant_select L self = Inr r"
    by (simp add: SelectorConstant_select_def)
  show "\<exists>r. SelectorBIC_select L self = Inr r"
    by (simp add: SelectorBIC_select_def split: prod.splits)
  show "\<exists>r. SelectorDIC_select L self = Inr r"
    by (simp add: SelectorDIC_select_def split: prod.splits)
  show "\<exists>r. SelectorCV_select L self = Inr r"
    if "(\<exists>sp. KFold L (random_state self) = Inr sp)
          \<or> max_n_components self < min_n_components self"
    using that by (rule cv_select_returns)
  show "SelectorCV_select L self = Inl e"
    if "KFold L (random_state self) = Inl e
          \<and> min_n_components self \<le> max_n_components self"
    using that by (auto intro: cv_select_raises)
  show "\<exists>r. recognize L models test_set = Inr r"
    if "(\<forall>i<num_items test_set. \<exists>item. get_item_Xlengths test_set i = Inr item)
          \<or> models = []"
    using that by (rule recognize_returns)
  show "\<exists>e''. recognize L models test_set = Inl e''"
    if "models \<noteq> [] \<and> i < num_items test_set \<and> get_item_Xlengths test_set i = Inl e'"
    using that by (auto intro: recognize_raises)
qed

theorem select_and_recognize_raise_only_outside_try_witness:
  "KFold ex_library (random_state ex_selector) = Inr ()
   \<and> SelectorCV_select ex_library ex_selector = Inr (Some \<lparr>n_components = 4, params = ()\<rparr>)
   \<and> KFold ex_library_no_splitter (random_state ex_selector) = Inl ValueError
   \<and> min_n_components ex_selector \<le> max_n_components ex_selector
   \<and> SelectorCV_select ex_library_no_splitter ex_selector = Inl ValueError
   \<and> get_item_Xlengths ex_test_set 0 = Inr ([[1]], [1])
   \<and> get_item_Xlengths ex_test_set 1 = Inr ([], [])
   \<and> num_items ex_test_set = 2
   \<and> recognize ex_library ex_models ex_test_set =
       Inr ([[(''A'', Fin 2), (''B'', Fin 3), (''C'', NegInf), (''D'', Fin 3)],
             [(''A'', NegInf), (''B'', NegInf), (''C'', NegInf), (''D'', NegInf)]],
            [Some ''B'', None])
   \<and> ex_models \<noteq> [] \<and> 0 < num_items ex_test_missing
   \<and> get_item_Xlengths ex_test_missing 0 = Inl KeyError
   \<and> recognize ex_library ex_models ex_test_missing = Inl KeyError"
proof -
  have k: "KFold ex_library (random_state ex_selector) = Inr ()"
    by (simp add: ex_library_def)
  have k': "KFold ex_library_no_splitter (random_state ex_selector) = Inl ValueError"
    by (simp add: ex_library_no_splitter_def)
  have r: "min_n_components ex_selector \<le> max_n_components ex_selector"
    by (simp add: ex_selector_def)
  have g: "get_item_Xlengths ex_test_set 0 = Inr ([[1]], [1])"
    "get_item_Xlengths ex_test_set 1 = Inr ([], [])" "num_items ex_test_set = 2"
    by (simp_all add: ex_test_set_def)
  have m: "ex_models \<noteq> []" "0 < num_items ex_test_missing"
    "get_item_Xlengths ex_test_missing 0 = Inl KeyError"
    by (simp_all add: ex_models_def ex_test_missing_def)
  have x: "recognize ex_library ex_models ex_test_missing = Inl KeyError"
    by (simp add: recognize_def ex_models_def ex_test_missing_def)
  from select_and_recognize_raise_only_outside_try
         [of ex_library_no_splitter ex_selector ValueError ex_test_missing ex_models 0 KeyError]
       k' r
  have c: "SelectorCV_select ex_library_no_splitter ex_selector = Inl ValueError" by simp
  from k ex_cv_select k' r c g ex_recognize m x show ?thesis by simp
qed

theorem select_and_recognize_raise_only_outside_try_counterexample:
  "recognize ex_library ex_models ex_test_missing = Inl KeyError
   \<and> SelectorCV_select ex_library_no_splitter ex_selector = Inl ValueError"
  by (simp add: recognize_def ex_models_def ex_test_missing_def SelectorCV_select_def
      cv_search_def ex_selector_def ex_library_no_splitter_def upto.simps)

section \<open>Failing candidates, the default and the final fit\<close>

lemma bic_search_default:
  assumes "\<forall>j\<in>{min_n_components self .. max_n_components self}. \<exists>e. bic_try L self j = Inl e"
  shows "bic_search L self = (PosInf, min_n_components self)"
  using bic_search_cases[of L self]
proof (elim disjE conjE exE)
  assume "bic_search L self = (PosInf, min_n_components self)"
  then show ?thesis .
next
  fix k m
  assume k: "min_n_components self \<le> k" "k \<le> max_n_components self"
    and t: "bic_try L self k = Inr (Num m)"
  from k have "k \<in> {min_n_components self .. max_n_components self}" by simp
  with assms obtain e where "bic_try L self k = Inl e" by blast
  with t have False by simp
  then show ?thesis ..
qed

lemma dic_search_default:
  assumes "\<forall>j\<in>{min_n_components self .. max_n_components self}. \<exists>e. dic_try L self j = Inl e"
  shows "dic_search L self = (NegInf, min_n_components self)"
  using dic_search_cases[of L self]
proof (elim disjE conjE exE)
  assume "dic_search L self = (NegInf, min_n_components self)"
  then show ?thesis .
next
  fix k m
  assume k: "min_n_components self \<le> k" "k \<le> max_n_components self"
    and t: "dic_try L self k = Inr (Num m)"
  from k have "k \<in> {min_n_components self .. max_n_components self}" by simp
  with assms obtain e where "dic_try L self k = Inl e" by blast
  with t have False by simp
  then show ?thesis ..
qed

lemma cv_search_default:
  assumes "KFold L (random_state self) = Inr sp" and "cv_observed L self = []"
  shows "cv_search L self = Inr (NegInf, min_n_components self)"
  using cv_search_keep_better[OF assms(1)] assms(2) by simp

lemma base_model_fit:
  "base_model L self n =
     (case hmm_fit L n (random_state self) (X self) (lengths self) of
        Inl e \<Rightarrow> None
      | Inr p \<Rightarrow> Some \<lparr>n_components = n, params = p\<rparr>)"
  by (simp add: base_model_def GaussianHMM_fit_def split: sum.splits)

text \<open>
  C5. In \<open>SelectorBIC\<close> and \<open>SelectorDIC\<close> a candidate whose \<open>try\<close> body raises
  leaves the running optimum and the best state count as they were. In \<open>SelectorCV\<close> a
  fold that raises ends the folds of its candidate and leaves the state as the earlier folds
  of the candidate made it: a fold that scores before it still takes part in the comparison;
  a \<open>split\<close> that raises leaves the state as it was. When no candidate of the range
  yields a value (in \<open>SelectorCV\<close>: when no fold score is observed) the best state count is
  \<open>min_n_components\<close>. The returned model is the outcome of a fit at the best state
  count on the word's own data, made after the search.
\<close>

theorem failing_candidates_and_final_fit:
  "(bic_try L self i = Inl e \<longrightarrow> bic_step L self st i = st)
   \<and> (dic_try L self i = Inl e \<longrightarrow> dic_step L self st i = st)
   \<and> (cv_fold L self i train_idx test_idx = Inl e \<longrightarrow>
        cv_folds L self i ((train_idx, test_idx) # folds) st = (st, Some e))
   \<and> (cv_fold L self i train_idx test_idx = Inr log_l \<longrightarrow>
        cv_folds L self i ((train_idx, test_idx) # folds) (max_score, max_components) =
          cv_folds L self i folds
            (if max_score < Fin log_l then (Fin log_l, i) else (max_score, max_components)))
   \<and> (KFold L (random_state self) = Inr sp \<and> split L sp (sequences self) = Inl e \<longrightarrow>
        cv_loop L self (i # cands) st = cv_loop L self cands st)
   \<and> ((\<forall>j\<in>{min_n_components self .. max_n_components self}. \<exists>e. bic_try L self j = Inl e) \<longrightarrow>
        bic_search L self = (PosInf, min_n_components self))
   \<and> ((\<forall>j\<in>{min_n_components self .. max_n_components self}. \<exists>e. dic_try L self j = Inl e) \<longrightarrow>
        dic_search L self = (NegInf, min_n_components self))
   \<and> (KFold L (random_state self) = Inr sp \<and> cv_observed L self = [] \<longrightarrow>
        cv_search L self = Inr (NegInf, min_n_components self))
   \<and> SelectorBIC_select L self = Inr (base_model L self (snd (bic_search L self)))
   \<and> SelectorDIC_select L self = Inr (base_model L self (snd (dic_search L self)))
   \<and> (cv_search L self = Inr st' \<longrightarrow>
        SelectorCV_select L self = Inr (base_model L self (snd st')))
   \<and> base_model L self n =
        (case hmm_fit L n (random_state self) (X self) (lengths self) of
           Inl e \<Rightarrow> None
         | Inr p \<Rightarrow> Some \<lparr>n_components = n, params = p\<rparr>)"
proof (intro conjI impI)
  show "bic_step L self st i = st" if "bic_try L self i = Inl e"
    using that by (simp add: bic_step_def split: prod.splits)
  show "dic_step L self st i = st" if "dic_try L self i = Inl e"
    using that by (simp add: dic_step_def split: prod.splits)
  show "cv_folds L self i ((train_idx, test_idx) # folds) st = (st, Some e)"
    if "cv_fold L self i train_idx test_idx = Inl e"
    using that by (cases st) simp
  show "cv_folds L self i ((train_idx, test_idx) # folds) (max_score, max_components) =
          cv_folds L self i folds
            (if max_score < Fin log_l then (Fin log_l, i) else (max_score, max_components))"
    if "cv_fold L self i train_idx test_idx = Inr log_l"
    using that by simp
  show "cv_loop L self (i # cands) st = cv_loop L self cands st"
    if "KFold L (random_state self) = Inr sp \<and> split L sp (sequences self) = Inl e"
    using that by simp
  show "bic_search L self = (PosInf, min_n_components self)"
    if "\<forall>j\<in>{min_n_components self .. max_n_components self}. \<exists>e. bic_try L self j = Inl e"
    using that by (rule bic_search_default)
  show "dic_search L self = (NegInf, min_n_components self)"
    if "\<forall>j\<in>{min_n_components self .. max_n_components self}. \<exists>e. dic_try L self j = Inl e"
    using that by (rule dic_search_default)
  show "cv_search L self = Inr (NegInf, min_n_components self)"
    if "KFold L (random_state self) = Inr sp \<and> cv_observed L self = []"
    using that by (auto intro: cv_search_default)
  show "SelectorBIC_select L self = Inr (base_model L self (snd (bic_search L self)))"
    by (simp add: SelectorBIC_select_def split: prod.splits)
  show "SelectorDIC_select L self = Inr (base_model L self (snd (dic_search L self)))"
    by (simp add: SelectorDIC_select_def split: prod.splits)
  show "SelectorCV_select L self = Inr (base_model L self (snd st'))"
    if "cv_search L self = Inr st'"
    using that by (simp add: SelectorCV_select_def split: prod.splits)
  show "base_model L self n =
        (case hmm_fit L n (random_state self) (X self) (lengths self) of
           Inl e \<Rightarrow> None
         | Inr p \<Rightarrow> Some \<lparr>n_components = n, params = p\<rparr>)"
    by (rule base_model_fit)
qed

theorem failing_candidates_and_final_fit_counterexample:
  "cv_fold ex_library_cv ex_selector_cv 2 [1, 2] [0] = Inl LibraryError
   \<and> cv_fold ex_library_cv ex_selector_cv 3 [0, 1] [2] = Inl LibraryError
   \<and> min_n_components ex_selector_cv = 2 \<and> max_n_components ex_selector_cv = 3
   \<and> cv_search ex_library_cv ex_selector_cv = Inr (Fin 15, 3)
   \<and> SelectorCV_select ex_library_cv ex_selector_cv
       = Inr (Some \<lparr>n_components = 3, params = ()\<rparr>)"
proof -
  have f: "cv_fold ex_library_cv ex_selector_cv 2 [1, 2] [0] = Inl LibraryError"
    "cv_fold ex_library_cv ex_selector_cv 3 [0, 1] [2] = Inl LibraryError"
    by (simp_all add: cv_fold_def GaussianHMM_fit_def ex_library_cv_def ex_library_def
        ex_selector_cv_def ex_selector_def)
  have r: "min_n_components ex_selector_cv = 2" "max_n_components ex_selector_cv = 3"
    by (simp_all add: ex_selector_cv_def ex_selector_def)
  have k: "KFold ex_library_cv (random_state ex_selector_cv) = Inr ()"
    by (simp add: ex_library_cv_def ex_library_def)
  have fs: "cv_fold_scores ex_library_cv ex_selector_cv 2 = []"
    "cv_fold_scores ex_library_cv ex_selector_cv 3 = [3, 15]"
    by (simp_all add: cv_fold_scores_def cv_fold_def GaussianHMM_fit_def ex_library_cv_def
        ex_library_def ex_selector_cv_def ex_selector_def)
  have obs: "cv_observed ex_library_cv ex_selector_cv = [(3, 3), (3, 15)]"
    by (simp add: cv_observed_def r upto.simps fs)
  have s: "cv_search ex_library_cv ex_selector_cv = Inr (Fin 15, 3)"
    unfolding cv_search_keep_better[OF k] obs r by (simp add: keep_better_apply)
  have b: "base_model ex_library_cv ex_selector_cv 3 = Some \<lparr>n_components = 3, params = ()\<rparr>"
    by (simp add: base_model_def GaussianHMM_fit_def ex_library_cv_def ex_library_def
        ex_selector_cv_def ex_selector_def)
  from s b have "SelectorCV_select ex_library_cv ex_selector_cv
       = Inr (Some \<lparr>n_components = 3, params = ()\<rparr>)"
    by (simp add: SelectorCV_select_def)
  with f r s show ?thesis by simp
qed


theorem failing_candidates_and_final_fit_witness:
  "bic_try ex_library ex_selector_nonpositive 0 = Inl LibraryError
   \<and> bic_step ex_library ex_selector_nonpositive (PosInf, - 1) 0 = (PosInf, - 1)
   \<and> dic_try ex_library ex_selector_nonpositive 0 = Inl LibraryError
   \<and> dic_step ex_library ex_selector_nonpositive (NegInf, - 1) 0 = (NegInf, - 1)
   \<and> min_n_components ex_selector_nonpositive = - 1
   \<and> max_n_components ex_selector_nonpositive = 0
   \<and> bic_search ex_library ex_selector_nonpositive = (PosInf, - 1)
   \<and> dic_search ex_library ex_selector_nonpositive = (NegInf, - 1)
   \<and> KFold ex_library (random_state ex_selector_nonpositive) = Inr ()
   \<and> cv_observed ex_library ex_selector_nonpositive = []
   \<and> cv_search ex_library ex_selector_nonpositive = Inr (NegInf, - 1)
   \<and> SelectorBIC_select ex_library ex_selector_nonpositive = Inr None
   \<and> SelectorDIC_select ex_library ex_selector_nonpositive = Inr None
   \<and> SelectorCV_select ex_library ex_selector_nonpositive = Inr None"
proof -
  note T = failing_candidates_and_final_fit[where L=ex_library
      and self=ex_selector_nonpositive and i=0 and e=LibraryError and sp="()"
      and st'="(NegInf, - 1)" and n="- 1"]
  have r: "min_n_components ex_selector_nonpositive = - 1"
    "max_n_components ex_selector_nonpositive = 0"
    by (simp_all add: ex_selector_nonpositive_def ex_selector_def)
  have bt: "bic_try ex_library ex_selector_nonpositive 0 = Inl LibraryError"
    by (simp add: bic_try_def GaussianHMM_fit_def ex_library_def)
  have dt: "dic_try ex_library ex_selector_nonpositive 0 = Inl LibraryError"
    by (simp add: dic_try_def GaussianHMM_fit_def ex_library_def)
  have hb: "\<forall>j\<in>{min_n_components ex_selector_nonpositive .. max_n_components ex_selector_nonpositive}.
              \<exists>e. bic_try ex_library ex_selector_nonpositive j = Inl e"
    by (simp add: r bic_try_def GaussianHMM_fit_def ex_library_def)
  have hd: "\<forall>j\<in>{min_n_components ex_selector_nonpositive .. max_n_components ex_selector_nonpositive}.
              \<exists>e. dic_try ex_library ex_selector_nonpositive j = Inl e"
    by (simp add: r dic_try_def GaussianHMM_fit_def ex_library_def)
  have k: "KFold ex_library (random_state ex_selector_nonpositive) = Inr ()"
    by (simp add: ex_library_def)
  have fs: "cv_fold_scores ex_library ex_selector_nonpositive (- 1) = []"
    "cv_fold_scores ex_library ex_selector_nonpositive 0 = []"
    by (simp_all add: cv_fold_scores_def cv_fold_def GaussianHMM_fit_def ex_library_def
        ex_selector_nonpositive_def ex_selector_def)
  have co: "cv_observed ex_library ex_selector_nonpositive = []"
    by (simp add: cv_observed_def r upto.simps fs)
  have b: "base_model ex_library ex_selector_nonpositive (- 1) = None"
    by (simp add: base_model_def GaussianHMM_fit_def ex_library_def)
  have 1: "bic_step ex_library ex_selector_nonpositive (PosInf, - 1) 0 = (PosInf, - 1)"
    using T[where st="(PosInf, - 1)"] bt by simp
  have 2: "dic_step ex_library ex_selector_nonpositive (NegInf, - 1) 0 = (NegInf, - 1)"
    using T[where st="(NegInf, - 1)"] dt by simp
  have 3: "bic_search ex_library ex_selector_nonpositive = (PosInf, - 1)"
    using T hb r by simp
  have 4: "dic_search ex_library ex_selector_nonpositive = (NegInf, - 1)"
    using T hd r by simp
  have 5: "cv_search ex_library ex_selector_nonpositive = Inr (NegInf, - 1)"
    using T k co r by simp
  have 6: "SelectorBIC_select ex_library ex_selector_nonpositive = Inr None"
    "SelectorDIC_select ex_library ex_selector_nonpositive = Inr None"
    "SelectorCV_select ex_library ex_selector_nonpositive = Inr None"
    using T 3 4 5 b by simp_all
  from bt dt r k co 1 2 3 4 5 6 show ?thesis by simp
qed

end
